theory Spec2Isabelle
  imports Main "HOL-Library.Word" "HOL-Library.AList" "HOL-Library.Multiset"
begin

unbundle bit_operations_syntax

section \<open>Data model\<close>

text \<open>
  \<^verbatim>\<open>EventsSet<NEvents>\<close> is a bit set of width \<^verbatim>\<open>NEvents\<close>: it is a word of that
  length, \<^verbatim>\<open>test\<close> is \<open>bit\<close>, \<^verbatim>\<open>&\<close>, \<^verbatim>\<open>|\<close>, \<^verbatim>\<open>^\<close> are \<open>AND\<close>, \<open>OR\<close>, \<open>XOR\<close>, and
  \<^verbatim>\<open>>>= 1\<close> is \<open>drop_bit 1\<close>. \<^verbatim>\<open>StorageIndex\<close> is an unsigned integer type: a word
  whose arithmetic wraps; \<^verbatim>\<open>StorageIndexSigned\<close> is its signed counterpart with the same
  bits, so the result \<^verbatim>\<open>-1\<close> of \<^verbatim>\<open>Trans\<close> is the word \<open>- 1\<close>. An event id
  (\<^verbatim>\<open>ScalarType\<close>) is a natural number; the theorems speak about event ids below
  \<^verbatim>\<open>NEvents\<close>, where \<^verbatim>\<open>test\<close> does not throw.

  \<^verbatim>\<open>DESystemBase\<close> is the abstract interface the proxy sees of its two operands
  (\<^verbatim>\<open>sys0_\<close>, \<^verbatim>\<open>sys1_\<close>): a record of the getters and of the six transition queries.
  The type parameters are instantiated with \<open>'n word\<close> (event sets) and
  \<open>'w word\<close> (state ids).
\<close>

record ('es, 'st) DESystemBase =
  GetStatesNumber :: "'st"
  GetInitialState :: "'st"
  GetMarkedStates :: "'st set"
  GetEvents :: "'es"
  ContainsTrans :: "'st \<Rightarrow> nat \<Rightarrow> bool"
  Trans :: "'st \<Rightarrow> nat \<Rightarrow> 'st"
  ContainsInvTrans :: "'st \<Rightarrow> nat \<Rightarrow> bool"
  InvTrans :: "'st \<Rightarrow> nat \<Rightarrow> 'st list"
  GetStateEvents :: "'st \<Rightarrow> 'es"
  GetInvStateEvents :: "'st \<Rightarrow> 'es"

text \<open>
  The members of the proxy class: those it inherits from the base class
  (\<^verbatim>\<open>states_number_\<close>, \<^verbatim>\<open>init_state_\<close>, \<^verbatim>\<open>marked_states_\<close>, \<^verbatim>\<open>events_\<close>;
  the record \<open>members\<close>), the two operand references, and
  the buffers that synthesis and materialisation fill (the field names are the
  members' names without the trailing underscore). \<^verbatim>\<open>transtriplet_\<close> holds for each
  kept virtual state its list of (successor, event) pairs; \<^verbatim>\<open>triplet_\<close> holds the
  emitted transitions (from, to, event set).
\<close>

record ('es, 'st) members =
  states_number :: "'st"
  init_state :: "'st"
  marked_states :: "'st set"
  events :: "'es"

record ('es, 'st) SuperProxy = "('es, 'st) members" +
  sys0 :: "('es, 'st) DESystemBase"
  sys1 :: "('es, 'st) DESystemBase"
  n_states_sys0 :: "'st"
  only_in_0 :: "'es"
  only_in_1 :: "'es"
  virtual_states :: "'st list"
  transtriplet :: "('st \<times> ('st \<times> nat) list) list"
  triplet :: "('st \<times> 'st \<times> 'es) list"
  bittriplet :: "('st \<times> 'st) list"

text \<open>
  The object \<^verbatim>\<open>sys_ptr_\<close> that the conversion to a concrete system fills: the
  members of the base class, and the two sparse matrices, each kept as the list of
  triplets it is set from (\<^verbatim>\<open>setFromTriplets\<close>). The cached per-state event sets
  (\<^verbatim>\<open>states_events_\<close>, \<^verbatim>\<open>inv_states_events_\<close>) play no part below and are left out.
\<close>

record ('es, 'st) sys_ptr = "('es, 'st) members" +
  graph :: "('st \<times> 'st \<times> 'es) list"
  bit_graph :: "('st \<times> 'st) list"

section \<open>The virtual product\<close>

text \<open>
  The two-operand constructor \<^verbatim>\<open>SuperProxy(aSys0, aSys1, aNonContr)\<close>. The marked
  states are the pairs of marked states of the operands, encoded as
  \<^verbatim>\<open>q1 * n_states_sys0_ + q0\<close>. The buffers start empty.
\<close>

definition SuperProxy ::
  "('n::len word, 'w::len word) DESystemBase \<Rightarrow> ('n word, 'w word) DESystemBase
     \<Rightarrow> nat list \<Rightarrow> ('n word, 'w word) SuperProxy" where
  "SuperProxy aSys0 aSys1 aNonContr =
     (let in_both = GetEvents aSys0 AND GetEvents aSys1 in
      \<lparr> states_number = GetStatesNumber aSys0 * GetStatesNumber aSys1,
        init_state = GetInitialState aSys1 * GetStatesNumber aSys0 + GetInitialState aSys0,
        marked_states =
          (\<lambda>(q0, q1). q1 * GetStatesNumber aSys0 + q0) `
            (GetMarkedStates aSys0 \<times> GetMarkedStates aSys1),
        events = GetEvents aSys0 OR GetEvents aSys1,
        sys0 = aSys0,
        sys1 = aSys1,
        n_states_sys0 = GetStatesNumber aSys0,
        only_in_0 = GetEvents aSys0 XOR in_both,
        only_in_1 = GetEvents aSys1 XOR in_both,
        virtual_states = [],
        transtriplet = [],
        triplet = [],
        bittriplet = [] \<rparr>)"

text \<open>
  The constructor from two lists of systems has an empty body and no member
  initialisers: the object it leaves is the default-initialised one, whatever that is
  (\<open>dflt\<close>; the default constructor of the base class is not part of the sources).
\<close>

definition SuperProxy_DESVector ::
  "('n::len word, 'w::len word) SuperProxy \<Rightarrow> ('n word, 'w word) DESystemBase list
     \<Rightarrow> ('n word, 'w word) DESystemBase list \<Rightarrow> nat list
     \<Rightarrow> ('n word, 'w word) SuperProxy" where
  "SuperProxy_DESVector dflt aPlants aSpecs aNonContr = dflt"

text \<open>
  The six queries of the proxy. Each decodes \<^verbatim>\<open>q = (qx, qy)\<close> with
  \<^verbatim>\<open>qx = aQ % n_states_sys0_\<close> and \<^verbatim>\<open>qy = aQ / n_states_sys0_\<close>; the division is
  defined when \<^verbatim>\<open>n_states_sys0_\<close> is not zero, which holds whenever the product has a
  state at all. The definitions follow the source on that domain.
\<close>

definition SuperProxy_ContainsTrans ::
  "('n::len word, 'w::len word) SuperProxy \<Rightarrow> 'w word \<Rightarrow> nat \<Rightarrow> bool" where
  "SuperProxy_ContainsTrans this aQ aEvent =
     (if \<not> bit (events this) aEvent then False
      else
        let qx = aQ mod n_states_sys0 this;
            qy = aQ div n_states_sys0 this;
            in_x = ContainsTrans (sys0 this) qx aEvent;
            in_y = ContainsTrans (sys1 this) qy aEvent
        in if (in_x \<and> in_y) \<or> (in_x \<and> bit (only_in_0 this) aEvent) \<or>
              (in_y \<and> bit (only_in_1 this) aEvent)
           then True else False)"

definition SuperProxy_Trans ::
  "('n::len word, 'w::len word) SuperProxy \<Rightarrow> 'w word \<Rightarrow> nat \<Rightarrow> 'w word" where
  "SuperProxy_Trans this aQ aEvent =
     (if \<not> bit (events this) aEvent then - 1
      else
        let qx = aQ mod n_states_sys0 this;
            qy = aQ div n_states_sys0 this;
            in_x = ContainsTrans (sys0 this) qx aEvent;
            in_y = ContainsTrans (sys1 this) qy aEvent
        in if \<not> ((in_x \<and> in_y) \<or> (in_x \<and> bit (only_in_0 this) aEvent) \<or>
                  (in_y \<and> bit (only_in_1 this) aEvent))
           then - 1
           else if in_x \<and> in_y then
             (let q0 = Trans (sys0 this) qx aEvent;
                  q1 = Trans (sys1 this) qy aEvent
              in q1 * n_states_sys0 this + q0)
           else if in_x then
             (let q0 = Trans (sys0 this) qx aEvent
              in qy * n_states_sys0 this + q0)
           else
             (let q1 = Trans (sys1 this) qy aEvent
              in q1 * n_states_sys0 this + qx))"

definition SuperProxy_ContainsInvTrans ::
  "('n::len word, 'w::len word) SuperProxy \<Rightarrow> 'w word \<Rightarrow> nat \<Rightarrow> bool" where
  "SuperProxy_ContainsInvTrans this aQ aEvent =
     (if \<not> bit (events this) aEvent then False
      else
        let qx = aQ mod n_states_sys0 this;
            qy = aQ div n_states_sys0 this;
            in_x = ContainsInvTrans (sys0 this) qx aEvent;
            in_y = ContainsInvTrans (sys1 this) qy aEvent
        in if (in_x \<and> in_y) \<or> (in_x \<and> bit (only_in_0 this) aEvent) \<or>
              (in_y \<and> bit (only_in_1 this) aEvent)
           then True else False)"

definition SuperProxy_InvTrans ::
  "('n::len word, 'w::len word) SuperProxy \<Rightarrow> 'w word \<Rightarrow> nat \<Rightarrow> 'w word list" where
  "SuperProxy_InvTrans this aQ aEvent =
     (if \<not> bit (events this) aEvent then []
      else
        let qx = aQ mod n_states_sys0 this;
            qy = aQ div n_states_sys0 this;
            in_x = ContainsInvTrans (sys0 this) qx aEvent;
            in_y = ContainsInvTrans (sys1 this) qy aEvent
        in if \<not> ((in_x \<and> in_y) \<or> (in_x \<and> bit (only_in_0 this) aEvent) \<or>
                  (in_y \<and> bit (only_in_1 this) aEvent))
           then []
           else if in_x \<and> in_y then
             concat (map (\<lambda>q0. map (\<lambda>q1. q1 * n_states_sys0 this + q0)
                                  (InvTrans (sys1 this) qy aEvent))
                         (InvTrans (sys0 this) qx aEvent))
           else if in_x then
             map (\<lambda>q. qy * n_states_sys0 this + q) (InvTrans (sys0 this) qx aEvent)
           else
             map (\<lambda>q. q * n_states_sys0 this + qx) (InvTrans (sys1 this) qy aEvent))"

definition SuperProxy_GetStateEvents ::
  "('n::len word, 'w::len word) SuperProxy \<Rightarrow> 'w word \<Rightarrow> 'n word" where
  "SuperProxy_GetStateEvents this aQ =
     (let state_event_0 = GetStateEvents (sys0 this) (aQ mod n_states_sys0 this);
          state_event_1 = GetStateEvents (sys1 this) (aQ div n_states_sys0 this)
      in (state_event_0 AND state_event_1) OR (state_event_0 AND only_in_0 this) OR
         (state_event_1 AND only_in_1 this))"

definition SuperProxy_GetInvStateEvents ::
  "('n::len word, 'w::len word) SuperProxy \<Rightarrow> 'w word \<Rightarrow> 'n word" where
  "SuperProxy_GetInvStateEvents this aQ =
     (let state_event_0 = GetInvStateEvents (sys0 this) (aQ mod n_states_sys0 this);
          state_event_1 = GetInvStateEvents (sys1 this) (aQ div n_states_sys0 this)
      in (state_event_0 AND state_event_1) OR (state_event_0 AND only_in_0 this) OR
         (state_event_1 AND only_in_1 this))"

text \<open>
  A proxy seen through the base-class interface, as when it is itself an operand of a
  proxy (\<^verbatim>\<open>SyncSysProxy{ *lhs, *rhs }\<close> in the reduction tree, and the virtual plant
  and specification handed to the synthesis).
\<close>

definition SuperProxy_base ::
  "('n::len word, 'w::len word) SuperProxy \<Rightarrow> ('n word, 'w word) DESystemBase" where
  "SuperProxy_base this =
     \<lparr> GetStatesNumber = states_number this,
       GetInitialState = init_state this,
       GetMarkedStates = marked_states this,
       GetEvents = events this,
       ContainsTrans = SuperProxy_ContainsTrans this,
       Trans = SuperProxy_Trans this,
       ContainsInvTrans = SuperProxy_ContainsInvTrans this,
       InvTrans = SuperProxy_InvTrans this,
       GetStateEvents = SuperProxy_GetStateEvents this,
       GetInvStateEvents = SuperProxy_GetInvStateEvents this \<rparr>"

section \<open>Concrete automata\<close>

text \<open>
  Modelled from the spec: the query functions of the concrete automaton
  (\<^verbatim>\<open>DESystemCore.hpp\<close> and \<^verbatim>\<open>DESystemBase.hpp\<close> are not among the sources). An
  automaton is given by its state count, initial state, marked states and the list of
  its transitions (from, event, to), as built by \<^verbatim>\<open>make_automaton\<close> and one
  \<^verbatim>\<open>set_transition(from, to, event)\<close> per triple. The alphabet is the union of the
  events on the transitions; \<^verbatim>\<open>contains_trans(q, e)\<close> holds iff a transition from
  \<open>q\<close> on \<open>e\<close> exists; \<^verbatim>\<open>trans(q, e)\<close> is the successor or NONE (\<open>- 1\<close>);
  \<^verbatim>\<open>state_events(q)\<close> are the events enabled at \<open>q\<close>; the inverse queries are the
  same on the transposed relation. It serves as the operand of the concrete runs below.
\<close>

fun events_of :: "nat list \<Rightarrow> 'n::len word" where
  "events_of [] = 0"
| "events_of (e # es) = push_bit e 1 OR events_of es"

definition DESystem ::
  "'w::len word \<Rightarrow> 'w word \<Rightarrow> 'w word set \<Rightarrow> ('w word \<times> nat \<times> 'w word) list
     \<Rightarrow> ('n::len word, 'w word) DESystemBase" where
  "DESystem aStatesNumber aInitState aMarkedStates trs =
     \<lparr> GetStatesNumber = aStatesNumber,
       GetInitialState = aInitState,
       GetMarkedStates = aMarkedStates,
       GetEvents = events_of (map (\<lambda>(f, ev, t). ev) trs),
       ContainsTrans = (\<lambda>q e. (q, e) \<in> set (map (\<lambda>(f, ev, t). (f, ev)) trs)),
       Trans = (\<lambda>q e. case map_of (map (\<lambda>(f, ev, t). ((f, ev), t)) trs) (q, e) of
                        None \<Rightarrow> - 1 | Some t \<Rightarrow> t),
       ContainsInvTrans = (\<lambda>q e. (q, e) \<in> set (map (\<lambda>(f, ev, t). (t, ev)) trs)),
       InvTrans = (\<lambda>q e. map fst (filter (\<lambda>(f, ev, t). t = q \<and> ev = e) trs)),
       GetStateEvents =
         (\<lambda>q. events_of (map (\<lambda>(f, ev, t). ev) (filter (\<lambda>(f, ev, t). f = q) trs))),
       GetInvStateEvents =
         (\<lambda>q. events_of (map (\<lambda>(f, ev, t). ev) (filter (\<lambda>(f, ev, t). t = q) trs))) \<rparr>"

section \<open>Iterating over the events of a set\<close>

text \<open>
  The loops over an event set all have the same shape:
  \<^verbatim>\<open>event = 0; while (event_it.any()) { if (event_it.test(0)) { body }; ++event;
  event_it >>= 1; }\<close>. \<open>for_each_event\<close> is that loop, with the loop body as a
  function of the event id and of the state the body changes. It visits the set bits in
  ascending order (\<open>for_each_event_fold\<close>).
\<close>

function for_each_event :: "'n::len word \<Rightarrow> nat \<Rightarrow> (nat \<Rightarrow> 's \<Rightarrow> 's) \<Rightarrow> 's \<Rightarrow> 's" where
  "for_each_event event_it event body s =
     (if event_it \<noteq> 0 then
        for_each_event (drop_bit 1 event_it) (event + 1) body
          (if bit event_it 0 then body event s else s)
      else s)"
  by pat_completeness auto

lemma drop_bit_1_less:
  fixes w :: "'n::len word"
  assumes "w \<noteq> 0"
  shows "unat (drop_bit 1 w) < unat w"
proof -
  have "unat w \<noteq> 0" using assms by (simp add: unat_eq_0)
  moreover have "unat (drop_bit 1 w) = unat w div 2"
    by (simp only: unat_drop_bit_eq) (simp add: drop_bit_eq_div)
  ultimately show ?thesis by simp
qed

termination for_each_event
  by (relation "measure (\<lambda>(event_it, event, body, s). unat event_it)")
    (use drop_bit_1_less in auto)

declare for_each_event.simps [simp del]

definition bits_of :: "'n::len word \<Rightarrow> nat list" where
  "bits_of w = filter (bit w) [0..<LENGTH('n)]"

lemma bits_of_0: "bits_of (0 :: 'n::len word) = []"
  by (simp add: bits_of_def)

lemma bits_of_step:
  fixes w :: "'n::len word"
  shows "bits_of w = (if bit w 0 then [0] else []) @ map Suc (bits_of (drop_bit 1 w))"
proof -
  obtain m where m: "LENGTH('n) = Suc m" by (cases "LENGTH('n)") auto
  have up: "[0..<Suc m] = 0 # map Suc [0..<m]"
    by (simp add: upt_conv_Cons map_Suc_upt del: upt_Suc)
  have a: "filter (bit w) (map Suc [0..<m]) = map Suc (filter (bit (drop_bit 1 w)) [0..<m])"
    by (simp add: filter_map comp_def bit_drop_bit_eq)
  have b: "filter (bit (drop_bit 1 w)) [0..<Suc m] = filter (bit (drop_bit 1 w)) [0..<m]"
    using m by (auto simp: bit_drop_bit_eq dest: bit_imp_le_length)
  have "filter (bit w) [0..<Suc m] =
        (if bit w 0 then [0] else []) @ filter (bit w) (map Suc [0..<m])"
    by (simp only: up) simp
  also have "\<dots> = (if bit w 0 then [0] else []) @
        map Suc (filter (bit (drop_bit 1 w)) [0..<Suc m])"
    by (simp only: a b)
  finally show ?thesis
    by (simp only: bits_of_def m)
qed

lemma for_each_event_fold:
  "for_each_event event_it event body s =
     fold body (map (\<lambda>i. event + i) (bits_of event_it)) s"
proof (induction event_it event body s rule: for_each_event.induct)
  case (1 event_it event body s)
  show ?case
  proof (cases "event_it = 0")
    case True
    then show ?thesis by (simp add: bits_of_0 for_each_event.simps)
  next
    case False
    have "for_each_event event_it event body s =
        for_each_event (drop_bit 1 event_it) (event + 1) body
          (if bit event_it 0 then body event s else s)"
      using False by (subst for_each_event.simps) simp
    also have "\<dots> = fold body (map (\<lambda>i. event + 1 + i) (bits_of (drop_bit 1 event_it)))
          (if bit event_it 0 then body event s else s)"
      using 1 False by simp
    also have "\<dots> = fold body (map (\<lambda>i. event + i) (bits_of event_it)) s"
    proof -
      have l: "map (\<lambda>i. event + i) (bits_of event_it) =
          (if bit event_it 0 then [event] else []) @
          map (\<lambda>i. event + 1 + i) (bits_of (drop_bit 1 event_it))"
        by (subst bits_of_step) (simp add: comp_def)
      have e: "(+) (Suc event) = (\<lambda>i. Suc (event + i))"
        by (rule ext) simp
      show ?thesis unfolding l by (simp add: e)
    qed
    finally show ?thesis .
  qed
qed

section \<open>Supervisor synthesis\<close>

text \<open>
  The state of the synthesis: the stack \<^verbatim>\<open>f\<close> (top first), the map \<^verbatim>\<open>c\<close> from
  each kept state to its list of (successor, event) pairs, and the set \<^verbatim>\<open>rmtable\<close> of
  removed states. The hash map \<^verbatim>\<open>c\<close> is an association list with one entry per key:
  \<^verbatim>\<open>c.contains(q)\<close> is \<open>map_of c q \<noteq> None\<close>, \<^verbatim>\<open>c[q] = new ...\<close> is
  \<open>AList.update q []\<close>, \<^verbatim>\<open>c[q]->push_back\<close> is \<open>AList.map_entry\<close>, and
  \<^verbatim>\<open>c.erase(s)\<close> is \<open>AList.delete s\<close>. The proxy \<^verbatim>\<open>virtualsys\<close> of
  \<^verbatim>\<open>SupervisorSynth\<close> is a \<^verbatim>\<open>SyncSysProxy\<close>, whose queries are those of the proxy
  above.

  \<^verbatim>\<open>RemoveBadStates\<close>: \<open>RemoveBadStates_visit\<close> is the body of
  \<^verbatim>\<open>for (StorageIndex s : finv)\<close>, \<open>RemoveBadStates_step\<close> one iteration of
  \<^verbatim>\<open>while (!f.empty())\<close>, and \<open>RemoveBadStates_loop\<close> the loop.
\<close>

type_synonym 'st TransMap = "('st \<times> ('st \<times> nat) list) list"

type_synonym 'st synth_state = "'st list \<times> 'st TransMap \<times> 'st set"

definition RemoveBadStates_visit :: "'w::len word \<Rightarrow> 'w word synth_state \<Rightarrow> 'w word synth_state" where
  "RemoveBadStates_visit s = (\<lambda>(f, aC, aRmTable).
     if s \<notin> aRmTable then
       (s # f, (if map_of aC s \<noteq> None then AList.delete s aC else aC), insert s aRmTable)
     else (f, aC, aRmTable))"

definition RemoveBadStates_step ::
  "('n::len word, 'w::len word) SuperProxy \<Rightarrow> 'n word \<Rightarrow> 'w word synth_state
     \<Rightarrow> 'w word synth_state" where
  "RemoveBadStates_step aVirtualSys aNonContrBit = (\<lambda>(f, aC, aRmTable).
     let x = hd f;
         f1 = tl f;
         q_events = SuperProxy_GetInvStateEvents aVirtualSys x AND aNonContrBit
     in for_each_event q_events 0
          (\<lambda>event. fold RemoveBadStates_visit (SuperProxy_InvTrans aVirtualSys x event))
          (f1, aC, aRmTable))"

lemma keys_delete: "fst ` set (AList.delete k al) = fst ` set al - {k}"
proof -
  have "set (map fst (AList.delete k al)) = set (map fst al) - {k}"
    by (simp only: delete_keys set_removeAll)
  then show ?thesis by simp
qed

lemma visit_killed:
  "snd (snd (fold RemoveBadStates_visit xs st)) = snd (snd st) \<union> set xs"
  by (induction xs arbitrary: st) (auto simp: RemoveBadStates_visit_def split: prod.splits)

lemma visit_union:
  "fst ` set (fst (snd (fold RemoveBadStates_visit xs st))) \<union>
     snd (snd (fold RemoveBadStates_visit xs st)) =
   fst ` set (fst (snd st)) \<union> snd (snd st) \<union> set xs"
proof (induction xs arbitrary: st)
  case Nil
  then show ?case by simp
next
  case (Cons x xs)
  obtain f c rm where st: "st = (f, c, rm)" by (cases st) auto
  have "fst ` set (fst (snd (RemoveBadStates_visit x st))) \<union> snd (snd (RemoveBadStates_visit x st))
        = fst ` set c \<union> rm \<union> {x}"
    by (auto simp: st RemoveBadStates_visit_def keys_delete map_of_eq_None_iff)
  then show ?case using Cons [of "RemoveBadStates_visit x st"] by (auto simp: st)
qed

lemma visit_same:
  "snd (snd (fold RemoveBadStates_visit xs st)) = snd (snd st) \<Longrightarrow>
   fold RemoveBadStates_visit xs st = st"
proof (induction xs arbitrary: st)
  case Nil
  then show ?case by simp
next
  case (Cons x xs)
  obtain f c rm where st: "st = (f, c, rm)" by (cases st) auto
  have "x \<in> snd (snd (RemoveBadStates_visit x st))"
    by (simp add: st RemoveBadStates_visit_def)
  moreover have "snd (snd (RemoveBadStates_visit x st)) \<union> set xs = rm"
    using Cons.prems by (simp add: visit_killed st)
  ultimately have "x \<in> rm" by auto
  then have "RemoveBadStates_visit x st = st" by (simp add: st RemoveBadStates_visit_def)
  then show ?case using Cons by simp
qed

definition preds ::
  "('n::len word, 'w::len word) SuperProxy \<Rightarrow> 'n word \<Rightarrow> 'w word \<Rightarrow> 'w word list" where
  "preds V nc x =
     concat (map (SuperProxy_InvTrans V x) (bits_of (SuperProxy_GetInvStateEvents V x AND nc)))"

lemma fold_fold_concat: "fold (\<lambda>e. fold g (h e)) es st = fold g (concat (map h es)) st"
  by (induction es arbitrary: st) auto

lemma RemoveBadStates_step_fold:
  "RemoveBadStates_step V nc (f, c, rm) =
     fold RemoveBadStates_visit (preds V nc (hd f)) (tl f, c, rm)"
  by (simp add: RemoveBadStates_step_def Let_def for_each_event_fold preds_def fold_fold_concat)

function RemoveBadStates_loop ::
  "('n::len word, 'w::len word) SuperProxy \<Rightarrow> 'n word \<Rightarrow> 'w word synth_state
     \<Rightarrow> 'w word synth_state" where
  "RemoveBadStates_loop aVirtualSys aNonContrBit st =
     (if fst st \<noteq> [] then
        RemoveBadStates_loop aVirtualSys aNonContrBit
          (RemoveBadStates_step aVirtualSys aNonContrBit st)
      else st)"
  by pat_completeness auto

definition kill_order :: "('w::len word synth_state \<times> 'w word synth_state) set" where
  "kill_order = inv_image (less_than <*lex*> less_than)
     (\<lambda>(f, c, rm). (card (- rm), length f))"

lemma wf_kill_order: "wf kill_order"
  unfolding kill_order_def by (intro wf_inv_image wf_lex_prod wf_less_than)

lemma RemoveBadStates_step_decreases:
  assumes "fst st \<noteq> []"
  shows "(RemoveBadStates_step V nc st, st) \<in> kill_order"
proof -
  obtain f c rm where st: "st = (f, c, rm)" by (cases st) auto
  let ?st' = "fold RemoveBadStates_visit (preds V nc (hd f)) (tl f, c, rm)"
  obtain f' c' rm' where st': "?st' = (f', c', rm')" by (cases ?st') auto
  have k: "rm' = rm \<union> set (preds V nc (hd f))"
    using visit_killed [of "preds V nc (hd f)" "(tl f, c, rm)"] by (simp add: st')
  show ?thesis
  proof (cases "rm' = rm")
    case True
    then have "?st' = (tl f, c, rm)"
      using visit_same [of "preds V nc (hd f)" "(tl f, c, rm)"] by (simp add: st')
    then show ?thesis using assms
      by (simp add: st RemoveBadStates_step_fold kill_order_def)
  next
    case False
    then have "rm \<subset> rm'" using k by auto
    then have "- rm' \<subset> - rm" by auto
    then have "card (- rm') < card (- rm)" by (intro psubset_card_mono) simp_all
    then show ?thesis
      by (simp add: st RemoveBadStates_step_fold st' kill_order_def)
  qed
qed

termination RemoveBadStates_loop
proof (relation "inv_image kill_order (\<lambda>(V, nc, st). st)")
  show "wf (inv_image kill_order (\<lambda>(V, nc, st). st))"
    by (simp add: wf_kill_order)
next
  fix aVirtualSys :: "('n::len word, 'w::len word) SuperProxy" and aNonContrBit
    and st :: "'w word synth_state"
  assume "fst st \<noteq> []"
  then show "((aVirtualSys, aNonContrBit, RemoveBadStates_step aVirtualSys aNonContrBit st),
              aVirtualSys, aNonContrBit, st)
             \<in> inv_image kill_order (\<lambda>(V, nc, st). st)"
    by (simp add: RemoveBadStates_step_decreases)
qed

declare RemoveBadStates_loop.simps [simp del]

definition RemoveBadStates ::
  "('n::len word, 'w::len word) SuperProxy \<Rightarrow> 'w word TransMap \<Rightarrow> 'w word \<Rightarrow> 'n word
     \<Rightarrow> 'w word set \<Rightarrow> 'w word TransMap \<times> 'w word set" where
  "RemoveBadStates aVirtualSys aC aQ aNonContrBit aRmTable =
     snd (RemoveBadStates_loop aVirtualSys aNonContrBit ([aQ], aC, insert aQ aRmTable))"

text \<open>
  What one run of the removal loop does to the removed set and to the keys of \<^verbatim>\<open>c\<close>.
\<close>

lemma RemoveBadStates_step_killed:
  "snd (snd (RemoveBadStates_step V nc st)) = snd (snd st) \<union> set (preds V nc (hd (fst st)))"
  by (cases st) (simp add: RemoveBadStates_step_fold visit_killed)

lemma RemoveBadStates_step_union:
  "fst ` set (fst (snd (RemoveBadStates_step V nc st))) \<union> snd (snd (RemoveBadStates_step V nc st))
   = fst ` set (fst (snd st)) \<union> snd (snd st) \<union> set (preds V nc (hd (fst st)))"
  by (cases st) (simp add: RemoveBadStates_step_fold visit_union)

lemma RemoveBadStates_loop_stack: "fst (RemoveBadStates_loop V nc st) = []"
  by (induction V nc st rule: RemoveBadStates_loop.induct)
    (subst RemoveBadStates_loop.simps, simp)

lemma RemoveBadStates_loop_killed: "snd (snd st) \<subseteq> snd (snd (RemoveBadStates_loop V nc st))"
proof (induction V nc st rule: RemoveBadStates_loop.induct)
  case (1 V nc st)
  show ?case
  proof (cases "fst st = []")
    case True
    then show ?thesis by (subst RemoveBadStates_loop.simps) simp
  next
    case False
    have "snd (snd st) \<subseteq> snd (snd (RemoveBadStates_step V nc st))"
      by (simp add: RemoveBadStates_step_killed)
    also have "\<dots> \<subseteq> snd (snd (RemoveBadStates_loop V nc (RemoveBadStates_step V nc st)))"
      using 1 False by simp
    finally show ?thesis using False by (subst RemoveBadStates_loop.simps) simp
  qed
qed

lemma RemoveBadStates_loop_union:
  "fst ` set (fst (snd st)) \<union> snd (snd st) \<subseteq>
   fst ` set (fst (snd (RemoveBadStates_loop V nc st))) \<union> snd (snd (RemoveBadStates_loop V nc st))"
proof (induction V nc st rule: RemoveBadStates_loop.induct)
  case (1 V nc st)
  show ?case
  proof (cases "fst st = []")
    case True
    then show ?thesis by (subst (1 2) RemoveBadStates_loop.simps) simp
  next
    case False
    have "fst ` set (fst (snd st)) \<union> snd (snd st) \<subseteq>
       fst ` set (fst (snd (RemoveBadStates_step V nc st))) \<union> snd (snd (RemoveBadStates_step V nc st))"
      by (simp only: RemoveBadStates_step_union) blast
    also have "\<dots> \<subseteq> fst ` set (fst (snd (RemoveBadStates_loop V nc (RemoveBadStates_step V nc st))))
       \<union> snd (snd (RemoveBadStates_loop V nc (RemoveBadStates_step V nc st)))"
      using 1 False by simp
    finally show ?thesis using False by (subst (1 2) RemoveBadStates_loop.simps) simp
  qed
qed

text \<open>
  The main loop of \<^verbatim>\<open>SupervisorSynth\<close>: \<open>SupervisorSynth_visit\<close> is the body of
  the loop over the events of \<^verbatim>\<open>q_events\<close>, \<open>SupervisorSynth_step\<close> one iteration
  of \<^verbatim>\<open>while (!f.empty())\<close>, and \<open>SupervisorSynth_loop\<close> the loop. The iteration
  computes \<^verbatim>\<open>q % virtualsys.n_states_sys0_\<close>, which is defined when the plant has a
  state; the definition follows the source on that domain.
\<close>

definition SupervisorSynth_visit ::
  "('n::len word, 'w::len word) SuperProxy \<Rightarrow> 'w word \<Rightarrow> 'w word set \<Rightarrow> nat
     \<Rightarrow> 'w word list \<times> 'w word TransMap \<Rightarrow> 'w word list \<times> 'w word TransMap" where
  "SupervisorSynth_visit virtualsys q rmtable event = (\<lambda>(f, c).
     let fsqe = SuperProxy_Trans virtualsys q event;
         f' = (if fsqe \<notin> rmtable then (if map_of c fsqe = None then fsqe # f else f) else f)
     in (f', AList.map_entry q (\<lambda>l. l @ [(fsqe, event)]) c))"

definition SupervisorSynth_step ::
  "('n::len word, 'w::len word) SuperProxy \<Rightarrow> ('n word, 'w word) DESystemBase \<Rightarrow> 'n word
     \<Rightarrow> 'n word \<Rightarrow> 'w word synth_state \<Rightarrow> 'w word synth_state" where
  "SupervisorSynth_step virtualsys aP p_non_contr_bit non_contr_bit = (\<lambda>(f, c, rmtable).
     let q = hd f;
         f1 = tl f
     in if q \<notin> rmtable \<and> map_of c q = None then
          let qx = q mod n_states_sys0 virtualsys;
              q_events = SuperProxy_GetStateEvents virtualsys q;
              in_ncqx = p_non_contr_bit AND GetStateEvents aP qx;
              in_ncqx_and_q = in_ncqx AND q_events
          in if in_ncqx_and_q \<noteq> in_ncqx then
               (let (c', rmtable') = RemoveBadStates virtualsys c q non_contr_bit rmtable
                in (f1, c', rmtable'))
             else
               (let (f2, c2) = for_each_event q_events 0
                     (SupervisorSynth_visit virtualsys q rmtable) (f1, AList.update q [] c)
                in (f2, c2, rmtable))
        else (f1, c, rmtable))"

function SupervisorSynth_loop ::
  "('n::len word, 'w::len word) SuperProxy \<Rightarrow> ('n word, 'w word) DESystemBase \<Rightarrow> 'n word
     \<Rightarrow> 'n word \<Rightarrow> 'w word synth_state \<Rightarrow> 'w word synth_state" where
  "SupervisorSynth_loop virtualsys aP p_non_contr_bit non_contr_bit st =
     (if fst st \<noteq> [] then
        SupervisorSynth_loop virtualsys aP p_non_contr_bit non_contr_bit
          (SupervisorSynth_step virtualsys aP p_non_contr_bit non_contr_bit st)
      else st)"
  by pat_completeness auto

definition synth_order :: "('w::len word synth_state \<times> 'w word synth_state) set" where
  "synth_order = inv_image (less_than <*lex*> less_than)
     (\<lambda>(f, c, rm). (card (- (fst ` set c \<union> rm)), length f))"

lemma wf_synth_order: "wf synth_order"
  unfolding synth_order_def by (intro wf_inv_image wf_lex_prod wf_less_than)

lemma keys_map_entry: "fst ` set (AList.map_entry k g al) = fst ` set al"
  by (induction al) auto

lemma visit_keys:
  "fst ` set (snd (fold (SupervisorSynth_visit V q rm) es st)) = fst ` set (snd st)"
  by (induction es arbitrary: st)
    (auto simp: SupervisorSynth_visit_def Let_def keys_map_entry split: prod.splits)

lemma SupervisorSynth_step_cases:
  fixes st :: "'w::len word synth_state"
    and V :: "('n::len word, 'w word) SuperProxy" and aP pnc nc
  assumes "fst st \<noteq> []"
  defines "st' \<equiv> SupervisorSynth_step V aP pnc nc st"
  defines "U \<equiv> fst ` set (fst (snd st)) \<union> snd (snd st)"
  defines "U' \<equiv> fst ` set (fst (snd st')) \<union> snd (snd st')"
  shows "(hd (fst st) \<in> U \<and> st' = (tl (fst st), snd st)) \<or>
         (hd (fst st) \<notin> U \<and> insert (hd (fst st)) U \<subseteq> U')"
proof -
  obtain f c rm where st: "st = (f, c, rm)" by (cases st) auto
  let ?q = "hd f"
  show ?thesis
  proof (cases "?q \<notin> rm \<and> map_of c ?q = None")
    case False
    then show ?thesis
      by (auto simp: st st'_def U_def SupervisorSynth_step_def Let_def map_of_eq_None_iff)
  next
    case True
    then have nU: "?q \<notin> U" by (auto simp: st U_def map_of_eq_None_iff)
    let ?bad = "(pnc AND GetStateEvents aP (?q mod n_states_sys0 V)) AND
        SuperProxy_GetStateEvents V ?q \<noteq> pnc AND GetStateEvents aP (?q mod n_states_sys0 V)"
    show ?thesis
    proof (cases ?bad)
      case bad: True
      let ?r = "RemoveBadStates_loop V nc ([?q], c, insert ?q rm)"
      have s': "st' = (tl f, snd ?r)"
        using True bad
        by (simp add: st st'_def SupervisorSynth_step_def Let_def RemoveBadStates_def
            split: prod.splits)
      have "fst ` set c \<union> insert ?q rm \<subseteq> fst ` set (fst (snd ?r)) \<union> snd (snd ?r)"
        using RemoveBadStates_loop_union [of "([?q], c, insert ?q rm)" V nc] by simp
      then have "insert ?q U \<subseteq> U'"
        by (auto simp: U_def U'_def s' st)
      then show ?thesis using nU by (simp add: st)
    next
      case good: False
      let ?r = "fold (SupervisorSynth_visit V ?q rm)
          (map (\<lambda>i. 0 + i) (bits_of (SuperProxy_GetStateEvents V ?q))) (tl f, AList.update ?q [] c)"
      have s': "st' = (fst ?r, snd ?r, rm)"
        using True good
        by (simp add: st st'_def SupervisorSynth_step_def Let_def for_each_event_fold
            split: prod.splits)
      have "fst ` set (snd ?r) = insert ?q (fst ` set c)"
        by (simp add: visit_keys dom_update)
      then have "insert ?q U \<subseteq> U'"
        by (auto simp: U_def U'_def s' st)
      then show ?thesis using nU by (simp add: st)
    qed
  qed
qed

lemma SupervisorSynth_step_decreases:
  fixes st :: "'w::len word synth_state"
  assumes "fst st \<noteq> []"
  shows "(SupervisorSynth_step V aP pnc nc st, st) \<in> synth_order"
proof -
  obtain f c rm where st: "st = (f, c, rm)" by (cases st) auto
  obtain f' c' rm' where st': "SupervisorSynth_step V aP pnc nc (f, c, rm) = (f', c', rm')"
    by (cases "SupervisorSynth_step V aP pnc nc (f, c, rm)") auto
  from SupervisorSynth_step_cases [OF assms, of V aP pnc nc]
  show ?thesis
  proof
    assume "hd (fst st) \<in> fst ` set (fst (snd st)) \<union> snd (snd st) \<and>
        SupervisorSynth_step V aP pnc nc st = (tl (fst st), snd st)"
    then show ?thesis using assms by (simp add: st synth_order_def)
  next
    assume a: "hd (fst st) \<notin> fst ` set (fst (snd st)) \<union> snd (snd st) \<and>
        insert (hd (fst st)) (fst ` set (fst (snd st)) \<union> snd (snd st))
        \<subseteq> fst ` set (fst (snd (SupervisorSynth_step V aP pnc nc st))) \<union>
          snd (snd (SupervisorSynth_step V aP pnc nc st))"
    then have "fst ` set c \<union> rm \<subset> fst ` set c' \<union> rm'"
      by (auto simp: st st')
    then have "- (fst ` set c' \<union> rm') \<subset> - (fst ` set c \<union> rm)" by auto
    then have "card (- (fst ` set c' \<union> rm')) < card (- (fst ` set c \<union> rm))"
      by (intro psubset_card_mono) simp_all
    then show ?thesis by (simp add: st st' synth_order_def)
  qed
qed

termination SupervisorSynth_loop
proof (relation "inv_image synth_order (\<lambda>(V, aP, pnc, nc, st). st)")
  show "wf (inv_image synth_order (\<lambda>(V, aP, pnc, nc, st). st))"
    by (simp add: wf_synth_order)
next
  fix virtualsys :: "('n::len word, 'w::len word) SuperProxy" and aP p_non_contr_bit non_contr_bit
    and st :: "'w word synth_state"
  assume "fst st \<noteq> []"
  then show "((virtualsys, aP, p_non_contr_bit, non_contr_bit,
               SupervisorSynth_step virtualsys aP p_non_contr_bit non_contr_bit st),
              virtualsys, aP, p_non_contr_bit, non_contr_bit, st)
             \<in> inv_image synth_order (\<lambda>(V, aP, pnc, nc, st). st)"
    by (simp add: SupervisorSynth_step_decreases)
qed

declare SupervisorSynth_loop.simps [simp del]

section \<open>Materialisation\<close>

text \<open>
  \<^verbatim>\<open>SynchronizeStage2\<close>. \<open>statesmap_of\<close> is the loop that numbers the states of
  \<^verbatim>\<open>virtual_states_\<close> with \<^verbatim>\<open>cst = 0, 1, ...\<close>; \<open>statesmap_at\<close> is
  \<^verbatim>\<open>statesmap[k]\<close>, which inserts the key with the value 0 when it is absent;
  \<open>SynchronizeStage2_edge\<close> is the body of the inner loop for one recorded pair
  \<^verbatim>\<open>(qto, event)\<close> of the state \<^verbatim>\<open>q\<close>. Both loops take their elements from the back.
  \<^verbatim>\<open>SetStatesNumber\<close> and \<^verbatim>\<open>InsertMarkedState\<close> belong to the base class: the first sets
  \<^verbatim>\<open>states_number_\<close>, the second inserts into \<^verbatim>\<open>marked_states_\<close>.
\<close>

definition statesmap_of :: "'w::len word list \<Rightarrow> ('w word \<times> 'w word) list" where
  "statesmap_of vs =
     fst (fold (\<lambda>s (statesmap, cst). (AList.update s cst statesmap, cst + 1)) vs ([], 0))"

definition statesmap_at ::
  "('w::len word \<times> 'w word) list \<Rightarrow> 'w word \<Rightarrow> ('w word \<times> 'w word) list \<times> 'w word" where
  "statesmap_at statesmap k =
     (case map_of statesmap k of
        Some v \<Rightarrow> (statesmap, v)
      | None \<Rightarrow> (AList.update k 0 statesmap, 0))"

definition SynchronizeStage2_edge ::
  "'w::len word \<Rightarrow> 'w word \<times> nat
     \<Rightarrow> ('w word \<times> 'w word) list \<times> ('w word \<times> 'w word \<times> 'n::len word) list \<times> ('w word \<times> 'w word) list
     \<Rightarrow> ('w word \<times> 'w word) list \<times> ('w word \<times> 'w word \<times> 'n word) list \<times> ('w word \<times> 'w word) list" where
  "SynchronizeStage2_edge q = (\<lambda>(qto, event) (statesmap, tr, bt).
     if map_of statesmap qto \<noteq> None then
       let (sm1, qto_mapped) = statesmap_at statesmap qto;
           (sm2, q_mapped) = statesmap_at sm1 q
       in (sm2, tr @ [(q_mapped, qto_mapped, push_bit event 1)], bt @ [(qto_mapped, q_mapped)])
     else (statesmap, tr, bt))"

definition SynchronizeStage2 ::
  "('n::len word, 'w::len word) SuperProxy \<Rightarrow> ('n word, 'w word) SuperProxy" where
  "SynchronizeStage2 aVirtualSys =
     (let vs = virtual_states aVirtualSys;
          statesmap = statesmap_of vs;
          bt0 = bittriplet aVirtualSys @ map (\<lambda>i. (word_of_nat i, word_of_nat i)) [0..<length vs];
          keys = (\<lambda>(s0, s1). s1 * n_states_sys0 aVirtualSys + s0) `
                   (GetMarkedStates (sys0 aVirtualSys) \<times> GetMarkedStates (sys1 aVirtualSys));
          marked = marked_states aVirtualSys \<union>
                   (\<lambda>key. the (map_of statesmap key)) `
                     Set.filter (\<lambda>key. map_of statesmap key \<noteq> None) keys;
          (sm, tr, bt) =
            fold (\<lambda>(q, l). fold (SynchronizeStage2_edge q) (rev l))
              (rev (transtriplet aVirtualSys)) (statesmap, triplet aVirtualSys, bt0)
      in aVirtualSys\<lparr> states_number := word_of_nat (length vs),
                       marked_states := marked,
                       virtual_states := [],
                       transtriplet := [],
                       triplet := tr,
                       bittriplet := bt \<rparr>)"

text \<open>
  The conversion \<^verbatim>\<open>operator DESystem()\<close>: sort \<^verbatim>\<open>virtual_states_\<close>, run
  \<^verbatim>\<open>SynchronizeStage2\<close>, and move the members and the triplets into \<^verbatim>\<open>sys_ptr_\<close>.
\<close>

definition SuperProxy_DESystem ::
  "('n::len word, 'w::len word) SuperProxy \<Rightarrow> ('n word, 'w word) sys_ptr" where
  "SuperProxy_DESystem this =
     (let sorted = this\<lparr> virtual_states := sort (virtual_states this) \<rparr>;
          staged = SynchronizeStage2 sorted
      in \<lparr> states_number = states_number staged,
           init_state = init_state staged,
           marked_states = marked_states staged,
           events = events staged,
           graph = triplet staged,
           bit_graph = bittriplet staged \<rparr>)"

text \<open>
  \<^verbatim>\<open>SupervisorSynth(aP, aE, aNonContr)\<close>. \<open>non_contr_bits\<close> is the loop that fills
  \<^verbatim>\<open>p_non_contr_bit\<close> and \<^verbatim>\<open>non_contr_bit\<close>; \<open>SupervisorSynth_search\<close> runs the main
  loop from the initial state of the proxy; \<open>SupervisorSynth\<close> hands the keys and
  entries of \<^verbatim>\<open>c\<close> to the proxy and converts it. The result is the automaton on which
  \<^verbatim>\<open>Trim\<close> is then called (\<^verbatim>\<open>Trim\<close> is not among the sources). The test
  \<^verbatim>\<open>aP.GetEvents().test(event)\<close> throws for an id that is not below \<^verbatim>\<open>NEvents\<close>;
  \<open>non_contr_bits\<close> follows the source for lists of ids below \<^verbatim>\<open>NEvents\<close>.
\<close>

definition non_contr_bits ::
  "('n::len word, 'w::len word) DESystemBase \<Rightarrow> ('n word, 'w word) SuperProxy \<Rightarrow> nat list
     \<Rightarrow> 'n word \<times> 'n word" where
  "non_contr_bits aP virtualsys aNonContr =
     fold (\<lambda>event (p_non_contr_bit, non_contr_bit).
             if bit (GetEvents aP) event then
               (set_bit event p_non_contr_bit,
                if bit (events virtualsys) event then set_bit event non_contr_bit
                else non_contr_bit)
             else (p_non_contr_bit, non_contr_bit))
          aNonContr (0, 0)"

definition SupervisorSynth_search ::
  "('n::len word, 'w::len word) DESystemBase \<Rightarrow> ('n word, 'w word) DESystemBase \<Rightarrow> nat list
     \<Rightarrow> 'w word synth_state" where
  "SupervisorSynth_search aP aE aNonContr =
     (let virtualsys = SuperProxy aP aE aNonContr;
          (p_non_contr_bit, non_contr_bit) = non_contr_bits aP virtualsys aNonContr
      in SupervisorSynth_loop virtualsys aP p_non_contr_bit non_contr_bit
           ([init_state virtualsys], [], {}))"

definition SupervisorSynth ::
  "('n::len word, 'w::len word) DESystemBase \<Rightarrow> ('n word, 'w word) DESystemBase \<Rightarrow> nat list
     \<Rightarrow> ('n word, 'w word) sys_ptr" where
  "SupervisorSynth aP aE aNonContr =
     (let virtualsys = SuperProxy aP aE aNonContr;
          (f, c, rmtable) = SupervisorSynth_search aP aE aNonContr
      in SuperProxy_DESystem
           (virtualsys\<lparr> virtual_states := map fst c, transtriplet := c \<rparr>))"


section \<open>The reduction tree\<close>

text \<open>
  \<^verbatim>\<open>GenBinExprTree\<close>. A node of the tree is either a copy of an input system
  (\<^verbatim>\<open>make_shared<DESystem>(s)\<close>) or a proxy of two nodes
  (\<^verbatim>\<open>make_shared<SyncSysProxy>(SyncSysProxy{ *lhs, *rhs })\<close>). The vectors \<^verbatim>\<open>sys\<close>,
  \<^verbatim>\<open>cp_sys\<close> and \<^verbatim>\<open>nodes_ref\<close> are lists in index order: \<^verbatim>\<open>back()\<close> is \<open>last\<close>,
  \<^verbatim>\<open>pop_back()\<close> is \<open>butlast\<close>, \<^verbatim>\<open>push_back\<close> appends. \<open>GenBinExprTree_pairs\<close>
  is the inner loop \<^verbatim>\<open>while (!cp_sys.empty())\<close>; taking \<^verbatim>\<open>back()\<close> of a vector that
  has become empty is the result \<open>None\<close>. \<open>GenBinExprTree_loop\<close> is the outer loop
  \<^verbatim>\<open>while (sys.size() != 1)\<close>, which does not return when it is started on the empty
  vector: not returning is the value \<open>None\<close>. The result is the pair of the root
  \<^verbatim>\<open>sys[0]\<close> and of \<^verbatim>\<open>nodes_ref\<close>.
\<close>

datatype 'a node = DESystem_node 'a | SyncSysProxy_node "'a node" "'a node"

function GenBinExprTree_pairs ::
  "'a node list \<Rightarrow> 'a node list \<Rightarrow> 'a node list \<Rightarrow> ('a node list \<times> 'a node list) option" where
  "GenBinExprTree_pairs cp_sys sys nodes_ref =
     (if cp_sys \<noteq> [] then
        let lhs = last cp_sys;
            cp1 = butlast cp_sys
        in if cp1 = [] then None
           else
             let rhs = last cp1;
                 cp2 = butlast cp1;
                 node = SyncSysProxy_node lhs rhs
             in GenBinExprTree_pairs cp2 (sys @ [node]) (nodes_ref @ [node])
      else Some (sys, nodes_ref))"
  by pat_completeness auto
termination
  by (relation "measure (\<lambda>(cp_sys, sys, nodes_ref). length cp_sys)") auto

declare GenBinExprTree_pairs.simps [simp del]

partial_function (option) GenBinExprTree_loop ::
  "'a node list \<Rightarrow> 'a node list \<Rightarrow> ('a node \<times> 'a node list) option" where
  "GenBinExprTree_loop sys nodes_ref =
     (if length sys \<noteq> 1 then
        Option.bind
          (if length sys mod 2 \<noteq> 0
           then GenBinExprTree_pairs (butlast sys) [last sys] nodes_ref
           else GenBinExprTree_pairs sys [] nodes_ref)
          (\<lambda>(sys', nodes_ref'). GenBinExprTree_loop sys' nodes_ref')
      else Some (sys ! 0, nodes_ref))"

declare GenBinExprTree_loop.simps [code]

definition GenBinExprTree :: "'a list \<Rightarrow> ('a node \<times> 'a node list) option" where
  "GenBinExprTree aSystems =
     GenBinExprTree_loop (map DESystem_node aSystems) (map DESystem_node aSystems)"

text \<open>The system that a node stands for, by the constructor of the proxy.\<close>

fun node_sys :: "('n::len word, 'w::len word) DESystemBase node \<Rightarrow> ('n word, 'w word) DESystemBase" where
  "node_sys (DESystem_node s) = s"
| "node_sys (SyncSysProxy_node lhs rhs) =
     SuperProxy_base (SuperProxy (node_sys lhs) (node_sys rhs) [])"

text \<open>
  The reduction as the spec words it: one round pairs adjacent entries into proxies and
  carries the last entry through unpaired when the count is odd; rounds repeat until one
  node remains. The spec leaves open in which order a round lists its results and which
  entry of a pair is the left operand; \<open>reduction_round\<close> takes the carried entry
  first, then the pairs from the last to the first, each with its later entry as the
  left operand.
\<close>

fun adjacent_pairs :: "'b list \<Rightarrow> ('b \<times> 'b) list" where
  "adjacent_pairs (a # b # xs) = (a, b) # adjacent_pairs xs"
| "adjacent_pairs xs = []"

definition reduction_round :: "'a node list \<Rightarrow> 'a node list" where
  "reduction_round xs =
     (if odd (length xs) then [last xs] else []) @
     rev (map (\<lambda>(a, b). SyncSysProxy_node b a) (adjacent_pairs xs))"

fun leaves :: "'a node \<Rightarrow> 'a list" where
  "leaves (DESystem_node s) = [s]"
| "leaves (SyncSysProxy_node l r) = leaves l @ leaves r"


section \<open>Scenario automata\<close>

text \<open>
  Two small automata over \<^verbatim>\<open>NEvents = 4\<close> with 32-bit state ids, used for the
  concrete runs: \<open>X0\<close> has the transitions \<^verbatim>\<open>0 --0--> 1\<close> and \<^verbatim>\<open>1 --2--> 0\<close>,
  \<open>Y0\<close> has \<^verbatim>\<open>0 --2--> 1\<close> and \<^verbatim>\<open>1 --1--> 0\<close>; event 2 is shared.
\<close>

definition X0 :: "(4 word, 32 word) DESystemBase" where
  "X0 = DESystem 2 0 {0} [(0, 0, 1), (1, 2, 0)]"

definition Y0 :: "(4 word, 32 word) DESystemBase" where
  "Y0 = DESystem 2 0 {0, 1} [(0, 2, 1), (1, 1, 0)]"

text \<open>
  Scenario S3: the plant \<open>P3\<close> has one state with a self-loop on \<^verbatim>\<open>b0 = 2\<close>, the
  specification \<open>E3\<close> has one state and no transition; the uncontrollable events are
  \<^verbatim>\<open>b0 = 2\<close> and \<^verbatim>\<open>b1 = 3\<close>.
\<close>

definition P3 :: "(4 word, 32 word) DESystemBase" where
  "P3 = DESystem 1 0 {0} [(0, 2, 0)]"

definition E3 :: "(4 word, 32 word) DESystemBase" where
  "E3 = DESystem 1 0 {0} []"

text \<open>
  A plant whose initial state is not state 0: two states, initial state 1, which is
  marked and has a self-loop on event 0.
\<close>

definition P2 :: "(4 word, 32 word) DESystemBase" where
  "P2 = DESystem 2 1 {1} [(1, 0, 1)]"

text \<open>
  Scenario S2: the plant \<open>PS\<close> with four states and the specification \<open>ES\<close> with
  two states, which disables \<^verbatim>\<open>b0 = 2\<close> in its state 1.
\<close>

definition PS :: "(4 word, 32 word) DESystemBase" where
  "PS = DESystem 4 0 {0}
     [(0, 0, 1), (0, 1, 2), (1, 2, 0), (1, 1, 3), (2, 3, 0), (2, 0, 3), (3, 3, 1), (3, 2, 2)]"

definition ES :: "(4 word, 32 word) DESystemBase" where
  "ES = DESystem 2 0 {0, 1} [(0, 2, 1), (1, 1, 0)]"

text \<open>
  A plant \<open>PK\<close> that does \<^verbatim>\<open>b0\<close> twice (\<^verbatim>\<open>0 --b0--> 1 --b0--> 2\<close>) and a
  specification \<open>EK\<close> that allows it once (\<^verbatim>\<open>0 --b0--> 1\<close>).
\<close>

definition PK :: "(4 word, 32 word) DESystemBase" where
  "PK = DESystem 3 0 {0} [(0, 2, 1), (1, 2, 2)]"

definition EK :: "(4 word, 32 word) DESystemBase" where
  "EK = DESystem 2 0 {0} [(0, 2, 1)]"

text \<open>
  Two automata whose product has more states than a 32-bit index holds: \<open>XW\<close> has
  \<open>65536\<close> states and the transition \<^verbatim>\<open>1 --0--> 65535\<close>, \<open>YW\<close> has \<open>65537\<close>
  states and the transition \<^verbatim>\<open>0 --0--> 65536\<close>; event 0 is shared.
\<close>

definition XW :: "(4 word, 32 word) DESystemBase" where
  "XW = DESystem 65536 0 {0} [(1, 0, 65535)]"

definition YW :: "(4 word, 32 word) DESystemBase" where
  "YW = DESystem 65537 0 {0} [(0, 0, 65536)]"

section \<open>Contracts of the operands\<close>

text \<open>
  The proxy reads its operands through the base-class interface only. Two properties of
  an operand, which the data model states as invariants of every automaton, are used
  below. \<open>state_events_in_alphabet\<close>: the events reported by \<^verbatim>\<open>GetStateEvents\<close>
  and \<^verbatim>\<open>GetInvStateEvents\<close> are events of the alphabet. \<open>inverse_of_forward\<close>:
  a transition \<open>q --e--> q'\<close> from a state leads to a state, is seen by the inverse
  queries at \<open>q'\<close> (the inverse index is the transpose of the forward relation, as
  after \<^verbatim>\<open>AllocateInvertedGraph\<close>), and the inverse queries answer only for events
  of the alphabet.
\<close>

definition state_events_in_alphabet :: "('n::len word, 'w::len word) DESystemBase \<Rightarrow> bool" where
  "state_events_in_alphabet S \<longleftrightarrow>
     (\<forall>q e. (bit (GetStateEvents S q) e \<longrightarrow> bit (GetEvents S) e) \<and>
            (bit (GetInvStateEvents S q) e \<longrightarrow> bit (GetEvents S) e))"

definition inverse_of_forward :: "('n::len word, 'w::len word) DESystemBase \<Rightarrow> bool" where
  "inverse_of_forward S \<longleftrightarrow>
     (\<forall>q e. q < GetStatesNumber S \<and> ContainsTrans S q e \<longrightarrow>
        Trans S q e < GetStatesNumber S \<and> ContainsInvTrans S (Trans S q e) e \<and>
        q \<in> set (InvTrans S (Trans S q e) e)) \<and>
     (\<forall>q e. ContainsInvTrans S q e \<longrightarrow> bit (GetEvents S) e)"

section \<open>Backward reachability\<close>

text \<open>
  The states from which \<open>q\<close> is reached along inverse transitions of the proxy whose
  events are in \<open>nc\<close> (the uncontrollable events of the composition) and are
  reported by \<^verbatim>\<open>GetInvStateEvents\<close>.
\<close>

inductive_set uncontrollable_predecessors ::
  "('n::len word, 'w::len word) SuperProxy \<Rightarrow> 'n word \<Rightarrow> 'w word \<Rightarrow> 'w word set"
  for V :: "('n::len word, 'w::len word) SuperProxy" and nc :: "'n word" and q :: "'w word" where
  target: "q \<in> uncontrollable_predecessors V nc q"
| earlier: "x \<in> uncontrollable_predecessors V nc q \<Longrightarrow>
         bit (SuperProxy_GetInvStateEvents V x AND nc) e \<Longrightarrow>
         p \<in> set (SuperProxy_InvTrans V x e) \<Longrightarrow>
         p \<in> uncontrollable_predecessors V nc q"

section \<open>Arithmetic of the state encoding\<close>

text \<open>
  A pair \<open>(q0, q1)\<close> of operand states is the product state \<open>q1 * n0 + q0\<close>.
  When the number of product states fits the index type, \<^verbatim>\<open>%\<close> and \<^verbatim>\<open>/\<close> by
  \<open>n0\<close> recover the pair.
\<close>

lemma decode_pair:
  fixes n0 n1 q0 q1 :: "'w::len word"
  assumes nw: "unat n0 * unat n1 < 2 ^ LENGTH('w)" and a: "q0 < n0" and b: "q1 < n1"
  shows "(q1 * n0 + q0) mod n0 = q0" and "(q1 * n0 + q0) div n0 = q1"
    and "q1 * n0 + q0 < n0 * n1"
proof -
  have a': "unat q0 < unat n0" using a by (simp add: word_less_nat_alt)
  have b': "unat q1 < unat n1" using b by (simp add: word_less_nat_alt)
  have "unat q1 * unat n0 + unat q0 < (unat q1 + 1) * unat n0" using a' by simp
  also have "\<dots> \<le> unat n1 * unat n0" using b' by (intro mult_le_mono1) simp
  finally have lt: "unat q1 * unat n0 + unat q0 < unat n0 * unat n1" by (simp add: mult.commute)
  then have lt2: "unat q1 * unat n0 + unat q0 < 2 ^ LENGTH('w)" using nw by simp
  then have m: "unat (q1 * n0) = unat q1 * unat n0"
    by (simp add: unat_mult_lem [THEN iffD1])
  have s: "unat (q1 * n0 + q0) = unat q1 * unat n0 + unat q0"
    using lt2 m by (simp add: unat_add_lem [THEN iffD1])
  have p: "unat (n0 * n1) = unat n0 * unat n1" using nw by (simp add: unat_mult_lem [THEN iffD1])
  show "(q1 * n0 + q0) mod n0 = q0"
    using a' by (simp add: word_unat_eq_iff unat_mod s)
  show "(q1 * n0 + q0) div n0 = q1"
    using a' by (simp add: word_unat_eq_iff unat_div s)
  show "q1 * n0 + q0 < n0 * n1"
    using lt by (simp add: word_less_nat_alt s p)
qed

lemma split_state:
  fixes n0 n1 q :: "'w::len word"
  assumes nw: "unat n0 * unat n1 < 2 ^ LENGTH('w)" and q: "q < n0 * n1"
  shows "q mod n0 < n0" and "q div n0 < n1" and "q div n0 * n0 + q mod n0 = q"
proof -
  have p: "unat (n0 * n1) = unat n0 * unat n1" using nw by (simp add: unat_mult_lem [THEN iffD1])
  have q': "unat q < unat n0 * unat n1" using q by (simp add: word_less_nat_alt p)
  then have n0: "0 < unat n0" by (cases "unat n0") auto
  show "q mod n0 < n0" using n0 by (simp add: word_less_nat_alt unat_mod)
  show "q div n0 < n1" using q' n0
    by (simp add: word_less_nat_alt unat_div less_mult_imp_div_less mult.commute)
  show "q div n0 * n0 + q mod n0 = q"
    by (simp add: word_mod_div_equality)
qed


section \<open>The concrete automaton satisfies the contracts\<close>

lemma bit_events_of: "bit (events_of es :: 'n::len word) e \<longleftrightarrow> e \<in> set es \<and> e < LENGTH('n)"
  by (induction es) (auto simp: bit_simps)

lemma DESystem_state_events_in_alphabet:
  "state_events_in_alphabet (DESystem n i m trs)"
  by (force simp: state_events_in_alphabet_def DESystem_def bit_events_of)

lemma SuperProxy_state_events_in_alphabet:
  assumes "state_events_in_alphabet X" "state_events_in_alphabet Y"
  shows "state_events_in_alphabet (SuperProxy_base (SuperProxy X Y nc))"
  using assms
  by (auto simp: state_events_in_alphabet_def SuperProxy_base_def SuperProxy_def
      SuperProxy_GetStateEvents_def SuperProxy_GetInvStateEvents_def Let_def bit_simps)

lemma DESystem_inverse_of_forward:
  assumes r: "\<forall>(f, ev, t) \<in> set trs. t < n \<and> ev < LENGTH('n)"
    and dt: "distinct (map (\<lambda>(f, ev, t). (f, ev)) trs)"
  shows "inverse_of_forward (DESystem n i m trs :: ('n::len word, 'w::len word) DESystemBase)"
proof -
  have k: "fst \<circ> (\<lambda>(f, ev, t). ((f, ev), t)) = (\<lambda>(f, ev, t :: 'w word). (f :: 'w word, ev :: nat))"
    by (rule ext) auto
  have tr: "map_of (map (\<lambda>(f, ev, t). ((f, ev), t)) trs) (q, e) = Some t"
    if "(q, e, t) \<in> set trs" for q e t
    using that dt by (intro map_of_is_SomeI) (auto simp: k intro: rev_image_eqI)
  show ?thesis
    unfolding inverse_of_forward_def
  proof (intro conjI allI impI)
    fix q e
    assume "q < GetStatesNumber (DESystem n i m trs :: ('n word, 'w word) DESystemBase)
            \<and> ContainsTrans (DESystem n i m trs :: ('n word, 'w word) DESystemBase) q e"
    then obtain t where t: "(q, e, t) \<in> set trs"
      by (auto simp: DESystem_def)
    have T: "Trans (DESystem n i m trs :: ('n word, 'w word) DESystemBase) q e = t"
      using tr [OF t] by (simp add: DESystem_def)
    show "Trans (DESystem n i m trs :: ('n word, 'w word) DESystemBase) q e
          < GetStatesNumber (DESystem n i m trs :: ('n word, 'w word) DESystemBase)"
      using r t by (auto simp: T) (auto simp: DESystem_def)
    show "ContainsInvTrans (DESystem n i m trs :: ('n word, 'w word) DESystemBase)
            (Trans (DESystem n i m trs :: ('n word, 'w word) DESystemBase) q e) e"
      unfolding T using t by (force simp: DESystem_def)
    show "q \<in> set (InvTrans (DESystem n i m trs :: ('n word, 'w word) DESystemBase)
            (Trans (DESystem n i m trs :: ('n word, 'w word) DESystemBase) q e) e)"
      unfolding T using t by (force simp: DESystem_def)
  next
    fix q e
    assume "ContainsInvTrans (DESystem n i m trs :: ('n word, 'w word) DESystemBase) q e"
    then obtain f where "(f, e, q) \<in> set trs" by (auto simp: DESystem_def)
    then show "bit (GetEvents (DESystem n i m trs :: ('n word, 'w word) DESystemBase)) e"
      using r by (force simp: DESystem_def bit_events_of)
  qed
qed

section \<open>Facts about the removal loop and the event loop\<close>

lemma set_bits_of: "set (bits_of (w :: 'n::len word)) = {e. bit w e}"
  by (auto simp: bits_of_def dest: bit_imp_le_length)

lemma set_preds:
  "set (preds V nc x) =
     {p. \<exists>e. bit (SuperProxy_GetInvStateEvents V x AND nc) e \<and> p \<in> set (SuperProxy_InvTrans V x e)}"
  by (auto simp: preds_def set_bits_of)

lemma visit_stack:
  "set (fst (fold RemoveBadStates_visit xs st)) = set (fst st) \<union> (set xs - snd (snd st))"
proof (induction xs arbitrary: st)
  case Nil
  then show ?case by simp
next
  case (Cons x xs)
  obtain f c rm where st: "st = (f, c, rm)" by (cases st) auto
  show ?case
  proof (cases "x \<in> rm")
    case True
    then have "RemoveBadStates_visit x st = st" by (simp add: st RemoveBadStates_visit_def)
    then show ?thesis using Cons [of st] True by (auto simp: st)
  next
    case False
    then obtain c1 where v: "RemoveBadStates_visit x (f, c, rm) = (x # f, c1, insert x rm)"
      by (simp add: RemoveBadStates_visit_def)
    have "set (fst (fold RemoveBadStates_visit xs (x # f, c1, insert x rm))) =
        insert x (set f) \<union> (set xs - insert x rm)"
      using Cons [of "(x # f, c1, insert x rm)"] by simp
    also have "\<dots> = set f \<union> (set (x # xs) - rm)" using False by auto
    finally show ?thesis by (simp only: st v fold_Cons comp_apply fst_conv snd_conv)
  qed
qed

lemma visit_map:
  "map_of (fst (snd (fold RemoveBadStates_visit xs st))) =
     map_of (fst (snd st)) |` (- (set xs - snd (snd st)))"
proof (induction xs arbitrary: st)
  case Nil
  then show ?case by simp
next
  case (Cons x xs)
  obtain f c rm where st: "st = (f, c, rm)" by (cases st) auto
  show ?case
  proof (cases "x \<in> rm")
    case True
    then have v: "RemoveBadStates_visit x (f, c, rm) = (f, c, rm)"
      by (simp add: RemoveBadStates_visit_def)
    have "- (set xs - rm) = - (set (x # xs) - rm)" using True by auto
    then show ?thesis using Cons [of "(f, c, rm)"] by (simp add: v st)
  next
    case False
    have d: "map_of (if map_of c x \<noteq> None then AList.delete x c else c) = map_of c |` (- {x})"
      by (auto simp: delete_conv' restrict_map_def fun_eq_iff)
    have v: "RemoveBadStates_visit x (f, c, rm) =
        (x # f, (if map_of c x \<noteq> None then AList.delete x c else c), insert x rm)"
      using False by (simp add: RemoveBadStates_visit_def)
    have e: "- {x} \<inter> - (set xs - insert x rm) = - (set (x # xs) - rm)" using False by auto
    show ?thesis
      using Cons [of "(x # f, (if map_of c x \<noteq> None then AList.delete x c else c), insert x rm)"]
      by (simp only: st v fold_Cons comp_apply fst_conv snd_conv d restrict_restrict e)
  qed
qed

lemma RemoveBadStates_loop_invariant:
  assumes "I st"
    and "\<And>s. I s \<Longrightarrow> fst s \<noteq> [] \<Longrightarrow> I (RemoveBadStates_step V nc s)"
  shows "I (RemoveBadStates_loop V nc st)"
  using assms
proof (induction V nc st rule: RemoveBadStates_loop.induct)
  case (1 V nc st)
  show ?case
  proof (cases "fst st = []")
    case True
    then show ?thesis using "1.prems"(1) by (subst RemoveBadStates_loop.simps) simp
  next
    case False
    have "I (RemoveBadStates_step V nc st)"
      by (rule "1.prems"(2) [OF "1.prems"(1) False])
    then have "I (RemoveBadStates_loop V nc (RemoveBadStates_step V nc st))"
      by (rule "1.IH" [OF False _ "1.prems"(2)])
    then show ?thesis using False by (subst RemoveBadStates_loop.simps) simp
  qed
qed


lemma kill_closed:
  fixes V :: "('n::len word, 'w::len word) SuperProxy" and nc q c rm
  defines "r \<equiv> RemoveBadStates_loop V nc ([q], c, insert q rm)"
  shows "\<forall>x \<in> snd (snd r) - rm. set (preds V nc x) \<subseteq> snd (snd r)"
proof -
  let ?I = "\<lambda>s :: 'w word synth_state. insert q rm \<subseteq> snd (snd s) \<and>
      (\<forall>x \<in> snd (snd s) - rm - set (fst s). set (preds V nc x) \<subseteq> snd (snd s))"
  have "?I r"
    unfolding r_def
  proof (rule RemoveBadStates_loop_invariant)
    show "?I ([q], c, insert q rm)" by auto
  next
    fix s :: "'w word synth_state"
    assume I: "?I s" and ne: "fst s \<noteq> []"
    obtain f c' rm' where s: "s = (f, c', rm')" by (cases s) auto
    let ?ps = "preds V nc (hd f)"
    have k: "snd (snd (RemoveBadStates_step V nc s)) = rm' \<union> set ?ps"
      by (simp add: RemoveBadStates_step_killed s)
    have t: "set (fst (RemoveBadStates_step V nc s)) = set (tl f) \<union> (set ?ps - rm')"
      by (simp add: s RemoveBadStates_step_fold visit_stack)
    have f: "set f = insert (hd f) (set (tl f))"
      using ne by (cases f) (auto simp: s)
    show "?I (RemoveBadStates_step V nc s)"
      unfolding k t using I f by (auto simp: s)
  qed
  moreover have "fst r = []" by (simp add: r_def RemoveBadStates_loop_stack)
  ultimately show ?thesis by simp
qed

lemma kill_map:
  fixes V :: "('n::len word, 'w::len word) SuperProxy" and nc q c rm
  defines "r \<equiv> RemoveBadStates_loop V nc ([q], c, insert q rm)"
  shows "map_of (fst (snd r)) = map_of c |` (- (snd (snd r) - insert q rm))"
proof -
  let ?I = "\<lambda>s :: 'w word synth_state. insert q rm \<subseteq> snd (snd s) \<and>
      map_of (fst (snd s)) = map_of c |` (- (snd (snd s) - insert q rm))"
  have "?I r"
    unfolding r_def
  proof (rule RemoveBadStates_loop_invariant)
    show "?I ([q], c, insert q rm)" by (simp add: restrict_map_def)
  next
    fix s :: "'w word synth_state"
    assume I: "?I s" and ne: "fst s \<noteq> []"
    obtain f c' rm' where s: "s = (f, c', rm')" by (cases s) auto
    let ?ps = "preds V nc (hd f)"
    have k: "snd (snd (RemoveBadStates_step V nc s)) = rm' \<union> set ?ps"
      by (simp add: RemoveBadStates_step_killed s)
    have m: "map_of (fst (snd (RemoveBadStates_step V nc s))) = map_of c' |` (- (set ?ps - rm'))"
      by (simp add: s RemoveBadStates_step_fold visit_map)
    have R: "insert q rm \<subseteq> rm'" and c': "map_of c' = map_of c |` (- (rm' - insert q rm))"
      using I by (simp_all add: s)
    have e: "- (rm' - insert q rm) \<inter> - (set ?ps - rm') = - (rm' \<union> set ?ps - insert q rm)"
      using R by auto
    show "?I (RemoveBadStates_step V nc s)"
      unfolding k m c' restrict_restrict e using R by auto
  qed
  then show ?thesis by simp
qed

lemma kill_sound:
  fixes V :: "('n::len word, 'w::len word) SuperProxy" and nc q c rm
  defines "r \<equiv> RemoveBadStates_loop V nc ([q], c, insert q rm)"
  shows "snd (snd r) - rm \<subseteq> uncontrollable_predecessors V nc q"
proof -
  let ?B = "uncontrollable_predecessors V nc q"
  let ?I = "\<lambda>s :: 'w word synth_state. set (fst s) \<subseteq> ?B \<and> snd (snd s) - rm \<subseteq> ?B"
  have "?I r"
    unfolding r_def
  proof (rule RemoveBadStates_loop_invariant)
    show "?I ([q], c, insert q rm)"
      by (auto intro: uncontrollable_predecessors.target)
  next
    fix s :: "'w word synth_state"
    assume I: "?I s" and ne: "fst s \<noteq> []"
    obtain f c' rm' where s: "s = (f, c', rm')" by (cases s) auto
    let ?ps = "preds V nc (hd f)"
    have k: "snd (snd (RemoveBadStates_step V nc s)) = rm' \<union> set ?ps"
      by (simp add: RemoveBadStates_step_killed s)
    have t: "set (fst (RemoveBadStates_step V nc s)) = set (tl f) \<union> (set ?ps - rm')"
      by (simp add: s RemoveBadStates_step_fold visit_stack)
    have "hd f \<in> ?B" using I ne by (cases f) (auto simp: s)
    then have p: "set ?ps \<subseteq> ?B"
      by (auto simp: set_preds intro: uncontrollable_predecessors.earlier)
    have "set (tl f) \<subseteq> ?B" using I ne by (cases f) (auto simp: s)
    then show "?I (RemoveBadStates_step V nc s)"
      unfolding k t using I p by (auto simp: s)
  qed
  then show ?thesis by simp
qed

lemma map_entry_twice:
  "AList.map_entry k g (AList.map_entry k h al) = AList.map_entry k (g \<circ> h) al"
  by (induction al) auto

lemma synth_visit_entries:
  "snd (fold (SupervisorSynth_visit V q rm) es (f, c)) =
     AList.map_entry q (\<lambda>l. l @ map (\<lambda>e. (SuperProxy_Trans V q e, e)) es) c"
proof (induction es arbitrary: f c)
  case Nil
  show ?case by (induction c) auto
next
  case (Cons e es)
  obtain f1 where v: "SupervisorSynth_visit V q rm e (f, c) =
      (f1, AList.map_entry q (\<lambda>l. l @ [(SuperProxy_Trans V q e, e)]) c)"
    by (simp add: SupervisorSynth_visit_def Let_def)
  show ?case
    by (simp only: fold_Cons comp_apply v Cons map_entry_twice) (simp add: comp_def)
qed

text \<open>Each loop is the iteration of its step until the stack is empty.\<close>

lemma SupervisorSynth_loop_iterate:
  "\<exists>n. fst ((SupervisorSynth_step V aP pnc nc ^^ n) st) = [] \<and>
       SupervisorSynth_loop V aP pnc nc st = (SupervisorSynth_step V aP pnc nc ^^ n) st"
proof (induction V aP pnc nc st rule: SupervisorSynth_loop.induct)
  case (1 V aP pnc nc st)
  show ?case
  proof (cases "fst st = []")
    case True
    then have "fst ((SupervisorSynth_step V aP pnc nc ^^ 0) st) = [] \<and>
        SupervisorSynth_loop V aP pnc nc st = (SupervisorSynth_step V aP pnc nc ^^ 0) st"
      by (subst SupervisorSynth_loop.simps) simp
    then show ?thesis by blast
  next
    case False
    then obtain n where n:
      "fst ((SupervisorSynth_step V aP pnc nc ^^ n) (SupervisorSynth_step V aP pnc nc st)) = []"
      "SupervisorSynth_loop V aP pnc nc (SupervisorSynth_step V aP pnc nc st) =
         (SupervisorSynth_step V aP pnc nc ^^ n) (SupervisorSynth_step V aP pnc nc st)"
      using 1 by blast
    have "fst ((SupervisorSynth_step V aP pnc nc ^^ Suc n) st) = [] \<and>
        SupervisorSynth_loop V aP pnc nc st = (SupervisorSynth_step V aP pnc nc ^^ Suc n) st"
      using n False by (subst SupervisorSynth_loop.simps) (simp add: funpow_swap1)
    then show ?thesis by blast
  qed
qed

lemma RemoveBadStates_loop_iterate:
  "\<exists>n. fst ((RemoveBadStates_step V nc ^^ n) st) = [] \<and>
       RemoveBadStates_loop V nc st = (RemoveBadStates_step V nc ^^ n) st"
proof (induction V nc st rule: RemoveBadStates_loop.induct)
  case (1 V nc st)
  show ?case
  proof (cases "fst st = []")
    case True
    then have "fst ((RemoveBadStates_step V nc ^^ 0) st) = [] \<and>
        RemoveBadStates_loop V nc st = (RemoveBadStates_step V nc ^^ 0) st"
      by (subst RemoveBadStates_loop.simps) simp
    then show ?thesis by blast
  next
    case False
    then obtain n where n:
      "fst ((RemoveBadStates_step V nc ^^ n) (RemoveBadStates_step V nc st)) = []"
      "RemoveBadStates_loop V nc (RemoveBadStates_step V nc st) =
         (RemoveBadStates_step V nc ^^ n) (RemoveBadStates_step V nc st)"
      using 1 by blast
    have "fst ((RemoveBadStates_step V nc ^^ Suc n) st) = [] \<and>
        RemoveBadStates_loop V nc st = (RemoveBadStates_step V nc ^^ Suc n) st"
      using n False by (subst RemoveBadStates_loop.simps) (simp add: funpow_swap1)
    then show ?thesis by blast
  qed
qed

text \<open>
  The two event sets that \<^verbatim>\<open>SupervisorSynth\<close> computes first: \<^verbatim>\<open>p_non_contr_bit\<close> holds
  the uncontrollable events of the plant's alphabet, \<^verbatim>\<open>non_contr_bit\<close> those of them
  that are in the alphabet of the composition.
\<close>

lemma non_contr_bits_fold:
  fixes aP :: "('n::len word, 'w::len word) DESystemBase"
    and virtualsys :: "('n word, 'w word) SuperProxy"
  defines "g \<equiv> (\<lambda>event (p_non_contr_bit :: 'n word, non_contr_bit :: 'n word).
             if bit (GetEvents aP) event then
               (set_bit event p_non_contr_bit,
                if bit (events virtualsys) event then set_bit event non_contr_bit
                else non_contr_bit)
             else (p_non_contr_bit, non_contr_bit))"
  shows "(bit (fst (fold g aNonContr (p, n))) e \<longleftrightarrow>
            bit p e \<or> e \<in> set aNonContr \<and> bit (GetEvents aP) e) \<and>
         (bit (snd (fold g aNonContr (p, n))) e \<longleftrightarrow>
            bit n e \<or> e \<in> set aNonContr \<and> bit (GetEvents aP) e \<and> bit (events virtualsys) e)"
proof (induction aNonContr arbitrary: p n)
  case Nil
  show ?case by simp
next
  case (Cons a as)
  show ?case
    unfolding fold_Cons comp_apply
    by (subst (1 2) g_def) (auto simp: Cons bit_simps dest: bit_imp_le_length)
qed

lemma non_contr_bits_bit:
  fixes aP :: "('n::len word, 'w::len word) DESystemBase"
  shows "bit (fst (non_contr_bits aP virtualsys aNonContr)) e \<longleftrightarrow>
           e \<in> set aNonContr \<and> bit (GetEvents aP) e"
    and "bit (snd (non_contr_bits aP virtualsys aNonContr)) e \<longleftrightarrow>
           e \<in> set aNonContr \<and> bit (GetEvents aP) e \<and> bit (events virtualsys) e"
  using non_contr_bits_fold [of aP virtualsys aNonContr 0 0 e]
  by (simp_all add: non_contr_bits_def)

section \<open>Facts about the materialisation\<close>










lemma SynchronizeStage2_members:
  "states_number (SynchronizeStage2 W) = word_of_nat (length (virtual_states W))"
  "init_state (SynchronizeStage2 W) = init_state W"
  by (simp_all add: SynchronizeStage2_def Let_def split: prod.splits)

section \<open>Facts about the reduction tree\<close>

lemma adjacent_pairs_snoc2:
  "even (length xs) \<Longrightarrow> adjacent_pairs (xs @ [a, b]) = adjacent_pairs xs @ [(a, b)]"
  by (induction xs rule: adjacent_pairs.induct) auto

lemma adjacent_pairs_butlast:
  "odd (length xs) \<Longrightarrow> adjacent_pairs (butlast xs) = adjacent_pairs xs"
  by (induction xs rule: adjacent_pairs.induct) auto

lemma length_adjacent_pairs: "length (adjacent_pairs xs) = length xs div 2"
  by (induction xs rule: adjacent_pairs.induct) auto

lemma GenBinExprTree_pairs_even:
  "even (length cp_sys) \<Longrightarrow>
   GenBinExprTree_pairs cp_sys sys nodes_ref =
     Some (sys @ rev (map (\<lambda>(a, b). SyncSysProxy_node b a) (adjacent_pairs cp_sys)),
           nodes_ref @ rev (map (\<lambda>(a, b). SyncSysProxy_node b a) (adjacent_pairs cp_sys)))"
proof (induction cp_sys sys nodes_ref rule: GenBinExprTree_pairs.induct)
  case (1 cp_sys sys nodes_ref)
  show ?case
  proof (cases "cp_sys = []")
    case True
    then show ?thesis by (subst GenBinExprTree_pairs.simps) simp
  next
    case False
    then obtain cp1 lhs where c1: "cp_sys = cp1 @ [lhs]" by (cases cp_sys rule: rev_cases) auto
    then have "cp1 \<noteq> []" using "1.prems" by auto
    then obtain cp2 rhs where c2: "cp1 = cp2 @ [rhs]" by (cases cp1 rule: rev_cases) auto
    have ev: "even (length cp2)" using "1.prems" by (simp add: c1 c2)
    have ap: "adjacent_pairs cp_sys = adjacent_pairs cp2 @ [(rhs, lhs)]"
      using adjacent_pairs_snoc2 [OF ev, of rhs lhs] by (simp add: c1 c2)
    have bl: "last cp_sys = lhs" "butlast cp_sys = cp1" "last cp1 = rhs" "butlast cp1 = cp2"
      by (simp_all add: c1 c2 del: append_assoc)
    have "GenBinExprTree_pairs cp_sys sys nodes_ref =
        GenBinExprTree_pairs cp2 (sys @ [SyncSysProxy_node lhs rhs])
          (nodes_ref @ [SyncSysProxy_node lhs rhs])"
      using False \<open>cp1 \<noteq> []\<close>
      by (subst GenBinExprTree_pairs.simps) (simp only: bl Let_def if_True if_False simp_thms)
    also have "\<dots> = Some ((sys @ [SyncSysProxy_node lhs rhs]) @
          rev (map (\<lambda>(a, b). SyncSysProxy_node b a) (adjacent_pairs cp2)),
        (nodes_ref @ [SyncSysProxy_node lhs rhs]) @
          rev (map (\<lambda>(a, b). SyncSysProxy_node b a) (adjacent_pairs cp2)))"
      using "1.IH" [of lhs cp1 rhs cp2 "SyncSysProxy_node lhs rhs"] ev False \<open>cp1 \<noteq> []\<close>
      by (simp add: bl)
    finally show ?thesis by (simp add: ap)
  qed
qed


lemma GenBinExprTree_loop_round:
  assumes "length sys \<noteq> 1"
  shows "GenBinExprTree_loop sys nodes_ref =
     GenBinExprTree_loop (reduction_round sys)
       (nodes_ref @ rev (map (\<lambda>(a, b). SyncSysProxy_node b a) (adjacent_pairs sys)))"
proof (cases "odd (length sys)")
  case True
  then have e: "even (length (butlast sys))" by (cases sys rule: rev_cases) auto
  have m: "length sys mod 2 \<noteq> 0" using True by presburger
  show ?thesis
    using assms True m
    by (subst GenBinExprTree_loop.simps)
      (simp add: GenBinExprTree_pairs_even [OF e] adjacent_pairs_butlast reduction_round_def)
next
  case False
  then have m: "length sys mod 2 = 0" by presburger
  show ?thesis
    using assms False m
    by (subst GenBinExprTree_loop.simps)
      (simp add: GenBinExprTree_pairs_even reduction_round_def)
qed

lemma length_reduction_round: "length (reduction_round xs) = (length xs + 1) div 2"
  by (auto simp: reduction_round_def length_adjacent_pairs elim: oddE)

lemma GenBinExprTree_loop_returns:
  "sys \<noteq> [] \<Longrightarrow>
   \<exists>k nodes_ref'. GenBinExprTree_loop sys nodes_ref =
        Some (hd ((reduction_round ^^ k) sys), nodes_ref') \<and>
      length ((reduction_round ^^ k) sys) = 1 \<and>
      (\<forall>j<k. length ((reduction_round ^^ j) sys) \<noteq> 1)"
proof (induction "length sys" arbitrary: sys nodes_ref rule: less_induct)
  case less
  show ?case
  proof (cases "length sys = 1")
    case True
    then have "GenBinExprTree_loop sys nodes_ref = Some (hd ((reduction_round ^^ 0) sys), nodes_ref)"
      by (subst GenBinExprTree_loop.simps) (cases sys; simp)
    then show ?thesis using True by fastforce
  next
    case False
    let ?r = "reduction_round sys"
    let ?n = "nodes_ref @ rev (map (\<lambda>(a, b). SyncSysProxy_node b a) (adjacent_pairs sys))"
    have "length sys \<noteq> 0" using less.prems by simp
    then have l: "2 \<le> length sys" using False by arith
    have "length ?r < length sys" "?r \<noteq> []"
      using l by (auto simp: length_reduction_round dest: arg_cong [where f = length])
    from less.hyps [OF this, of ?n]
    obtain k nodes_ref' where k:
      "GenBinExprTree_loop ?r ?n = Some (hd ((reduction_round ^^ k) ?r), nodes_ref')"
      "length ((reduction_round ^^ k) ?r) = 1"
      "\<forall>j<k. length ((reduction_round ^^ j) ?r) \<noteq> 1"
      by blast
    have a: "GenBinExprTree_loop sys nodes_ref =
        Some (hd ((reduction_round ^^ Suc k) sys), nodes_ref')"
      using k(1) by (simp add: GenBinExprTree_loop_round [OF False] funpow_swap1)
    have b: "length ((reduction_round ^^ Suc k) sys) = 1"
      using k(2) by (simp add: funpow_swap1)
    have c: "\<forall>j<Suc k. length ((reduction_round ^^ j) sys) \<noteq> 1"
    proof (intro allI impI)
      fix j assume "j < Suc k"
      then show "length ((reduction_round ^^ j) sys) \<noteq> 1"
        using k(3) False by (cases j) (auto simp: funpow_swap1)
    qed
    show ?thesis using a b c by blast
  qed
qed

lemma leaves_adjacent_pairs:
  "mset (concat (map leaves (map (\<lambda>(a, b). SyncSysProxy_node b a) (adjacent_pairs xs)))) +
   (if odd (length xs) then mset (leaves (last xs)) else {#}) =
   mset (concat (map leaves xs))"
  by (induction xs rule: adjacent_pairs.induct) auto

lemma mset_concat_rev: "mset (concat (rev xss)) = mset (concat xss)"
  by (induction xss) auto

lemma leaves_reduction_round:
  "mset (concat (map leaves (reduction_round xs))) = mset (concat (map leaves xs))"
  using leaves_adjacent_pairs [of xs]
  by (cases "odd (length xs)")
    (simp_all add: reduction_round_def rev_map [symmetric] mset_concat_rev add.commute)

lemma leaves_reduction_rounds:
  "mset (concat (map leaves ((reduction_round ^^ k) xs))) = mset (concat (map leaves xs))"
  by (induction k) (simp_all add: leaves_reduction_round)

text \<open>Started on no system at all, the reduction does not return.\<close>

lemma GenBinExprTree_loop_nonempty:
  assumes "GenBinExprTree_loop sys nodes_ref = Some y"
  shows "sys \<noteq> []"
proof (rule GenBinExprTree_loop.raw_induct [where P = "\<lambda>sys nodes_ref y. sys \<noteq> []", OF _ assms])
  fix loop :: "'a node list \<Rightarrow> 'a node list \<Rightarrow> ('a node \<times> 'a node list) option"
    and sys nodes_ref :: "'a node list" and y
  assume IH: "\<And>sys nodes_ref y. loop sys nodes_ref = Some y \<Longrightarrow> sys \<noteq> []"
    and b: "(if length sys \<noteq> 1 then
        Option.bind
          (if length sys mod 2 \<noteq> 0
           then GenBinExprTree_pairs (butlast sys) [last sys] nodes_ref
           else GenBinExprTree_pairs sys [] nodes_ref)
          (\<lambda>(sys', nodes_ref'). loop sys' nodes_ref')
      else Some (sys ! 0, nodes_ref)) = Some y"
  show "sys \<noteq> []"
  proof
    assume e: "sys = []"
    have "GenBinExprTree_pairs [] [] nodes_ref = Some ([], nodes_ref)"
      by (subst GenBinExprTree_pairs.simps) simp
    then have "loop [] nodes_ref = Some y"
      using b by (simp add: e)
    then show False using IH by blast
  qed
qed

lemma GenBinExprTree_empty: "GenBinExprTree ([] :: 'a list) = None"
proof (rule ccontr)
  assume "GenBinExprTree ([] :: 'a list) \<noteq> None"
  then obtain y where "GenBinExprTree_loop ([] :: 'a node list) [] = Some y"
    by (auto simp: GenBinExprTree_def)
  then show False using GenBinExprTree_loop_nonempty by blast
qed

section \<open>The composition rule\<close>

text \<open>
  Claim C3. For a state \<open>q = (qx, qy)\<close> of the virtual product of \<open>X\<close> and \<open>Y\<close>
  and an event id \<open>e\<close>: the product has a transition on \<open>e\<close> iff \<open>e\<close> is shared and
  both operands enable it, or \<open>e\<close> is only in the alphabet of \<open>X\<close> and \<open>X\<close>
  enables it, or \<open>e\<close> is only in the alphabet of \<open>Y\<close> and \<open>Y\<close> enables it; the
  enabled event set of the product is
  \<open>(X.state_events qx \<inter> Y.state_events qy) \<union> (X.state_events qx \<inter> only_X) \<union>
  (Y.state_events qy \<inter> only_Y)\<close>; and a shared event that only one side enables does
  not fire: \<^verbatim>\<open>ContainsTrans\<close> is false, \<^verbatim>\<open>Trans\<close> is NONE, and the event is not in
  the enabled set. The two forms of the rule say the same when the operands' own
  \<^verbatim>\<open>ContainsTrans\<close> and \<^verbatim>\<open>GetStateEvents\<close> agree and stay within their alphabets:
  then the product has a transition on \<open>e\<close> iff \<open>e\<close> is in its enabled set. Here \<open>shared\<close>, \<open>only_X\<close> and \<open>only_Y\<close> are written as the
  spec defines them (intersection and set difference of the alphabets), not as the
  constructor computes them.
\<close>

theorem composition_rule:
  fixes X Y :: "('n::len word, 'w::len word) DESystemBase"
  assumes "q < states_number (SuperProxy X Y nc)" and "e < LENGTH('n)"
  shows "let V = SuperProxy X Y nc;
             qx = q mod GetStatesNumber X; qy = q div GetStatesNumber X;
             in_X = ContainsTrans X qx e; in_Y = ContainsTrans Y qy e;
             shared = GetEvents X AND GetEvents Y;
             only_X = GetEvents X AND NOT shared;
             only_Y = GetEvents Y AND NOT shared
         in (SuperProxy_ContainsTrans V q e \<longleftrightarrow>
               (bit shared e \<and> in_X \<and> in_Y) \<or> (bit only_X e \<and> in_X) \<or> (bit only_Y e \<and> in_Y))
          \<and> SuperProxy_GetStateEvents V q =
               (GetStateEvents X qx AND GetStateEvents Y qy) OR
               (GetStateEvents X qx AND only_X) OR (GetStateEvents Y qy AND only_Y)
          \<and> (bit shared e \<and> \<not> (in_X \<and> in_Y) \<longrightarrow>
               \<not> SuperProxy_ContainsTrans V q e \<and> SuperProxy_Trans V q e = - 1)
          \<and> (bit shared e \<and> \<not> (bit (GetStateEvents X qx) e \<and> bit (GetStateEvents Y qy) e) \<longrightarrow>
               \<not> bit (SuperProxy_GetStateEvents V q) e)
          \<and> ((in_X \<longleftrightarrow> bit (GetStateEvents X qx) e) \<and> (in_Y \<longleftrightarrow> bit (GetStateEvents Y qy) e) \<and>
              (in_X \<longrightarrow> bit (GetEvents X) e) \<and> (in_Y \<longrightarrow> bit (GetEvents Y) e) \<longrightarrow>
               (SuperProxy_ContainsTrans V q e \<longleftrightarrow> bit (SuperProxy_GetStateEvents V q) e))"
proof -
  have x: "GetEvents X XOR (GetEvents X AND GetEvents Y) =
           GetEvents X AND NOT (GetEvents X AND GetEvents Y)"
    by (rule bit_eqI) (auto simp: bit_simps)
  have y: "GetEvents Y XOR (GetEvents X AND GetEvents Y) =
           GetEvents Y AND NOT (GetEvents X AND GetEvents Y)"
    by (rule bit_eqI) (auto simp: bit_simps)
  show ?thesis
    using assms(2) unfolding Let_def
    apply (intro conjI)
    subgoal by (auto simp: SuperProxy_ContainsTrans_def SuperProxy_def Let_def bit_simps)
    subgoal by (simp add: SuperProxy_GetStateEvents_def SuperProxy_def Let_def x y)
    subgoal
      by (auto simp: SuperProxy_ContainsTrans_def SuperProxy_Trans_def SuperProxy_def
          Let_def bit_simps)
    subgoal by (auto simp: SuperProxy_GetStateEvents_def SuperProxy_def Let_def bit_simps)
    subgoal
      by (auto simp: SuperProxy_ContainsTrans_def SuperProxy_GetStateEvents_def SuperProxy_def
          Let_def bit_simps)
    done
qed

text \<open>
  At the state \<open>3 = (1, 1)\<close> of \<open>X0 \<parallel> Y0\<close> the shared event 2 is enabled by
  \<open>X0\<close> only: it does not fire, and the enabled set is \<open>{1}\<close>.
\<close>

theorem composition_rule_witness:
  "(3::32 word) < states_number (SuperProxy X0 Y0 []) \<and> (2::nat) < LENGTH(4)
   \<and> ContainsTrans X0 1 2 \<and> \<not> ContainsTrans Y0 1 2 \<and> bit (GetEvents X0 AND GetEvents Y0) 2
   \<and> \<not> SuperProxy_ContainsTrans (SuperProxy X0 Y0 []) 3 2
   \<and> SuperProxy_Trans (SuperProxy X0 Y0 []) 3 2 = - 1
   \<and> SuperProxy_GetStateEvents (SuperProxy X0 Y0 []) 3 = 2"
proof -
  have h1: "(3::32 word) < states_number (SuperProxy X0 Y0 [])"
    by (simp add: SuperProxy_def X0_def Y0_def DESystem_def)
  have h2: "(2::nat) < LENGTH(4)" by simp
  have ev: "(3::32 word) mod GetStatesNumber X0 = 1" "(3::32 word) div GetStatesNumber X0 = 1"
    "ContainsTrans X0 1 2" "\<not> ContainsTrans Y0 1 2" "bit (GetEvents X0 AND GetEvents Y0) 2"
    "GetStateEvents X0 1 = 4" "GetStateEvents Y0 1 = 2" "GetEvents X0 = 5" "GetEvents Y0 = 6"
    by (simp_all add: X0_def Y0_def DESystem_def)
  show ?thesis
    using composition_rule [OF h1 h2] h1 ev
    by (simp add: Let_def)
qed

section \<open>The bad-state rule of the search\<close>

text \<open>
  Claim C1. One iteration of the main loop that pops a state \<open>q\<close> which is neither
  removed nor kept. With \<open>required_u\<close> the uncontrollable events that the plant
  enables at \<open>qx = q mod n_P\<close> and \<open>enabled_u\<close> those of them that the product
  enables at \<open>q\<close>: if \<open>enabled_u \<noteq> required_u\<close> then \<open>q\<close> is removed and not
  kept; the removed set only grows; every predecessor of a newly removed state along an
  inverse transition on an uncontrollable event of the composition is removed too, and
  only states from which \<open>q\<close> is reached that way are newly removed; and the kept map
  loses exactly the newly removed states. Otherwise nothing is removed, \<open>q\<close> becomes a
  key of the kept map, and the other entries stay as they are. The plant has a state
  (\<^verbatim>\<open>n_states_sys0_\<close> is not zero), so that \<^verbatim>\<open>q % n_states_sys0_\<close> and the
  decoding of \<open>q\<close> in the queries of the proxy are defined. In \<^verbatim>\<open>SupervisorSynth\<close>
  the sets \<open>p_nc\<close> and \<open>nc\<close> are the uncontrollable events of the plant's
  alphabet and those of them in the alphabet of the composition
  (\<open>non_contr_bits_bit\<close>).
\<close>

theorem bad_state_rule:
  fixes V :: "('n::len word, 'w::len word) SuperProxy"
  assumes "q \<notin> rmtable" and "map_of c q = None" and "n_states_sys0 V \<noteq> 0"
  shows
    "let required_u = p_nc AND GetStateEvents aP (q mod n_states_sys0 V);
         enabled_u = required_u AND SuperProxy_GetStateEvents V q;
         st' = SupervisorSynth_step V aP p_nc nc (q # f, c, rmtable);
         c' = fst (snd st');
         killed = snd (snd st')
     in (enabled_u \<noteq> required_u \<longrightarrow>
           q \<in> killed \<and> rmtable \<subseteq> killed \<and> map_of c' q = None \<and>
           (\<forall>x e p. x \<in> killed - rmtable \<and> bit (SuperProxy_GetInvStateEvents V x AND nc) e \<and>
                    p \<in> set (SuperProxy_InvTrans V x e) \<longrightarrow> p \<in> killed) \<and>
           killed - rmtable \<subseteq> uncontrollable_predecessors V nc q \<and>
           map_of c' = map_of c |` (- (killed - rmtable)))
      \<and> (enabled_u = required_u \<longrightarrow>
           killed = rmtable \<and> map_of c' q \<noteq> None \<and>
           (\<forall>p. p \<noteq> q \<longrightarrow> map_of c' p = map_of c p))"
proof -
  let ?req = "p_nc AND GetStateEvents aP (q mod n_states_sys0 V)"
  let ?en = "?req AND SuperProxy_GetStateEvents V q"
  let ?st' = "SupervisorSynth_step V aP p_nc nc (q # f, c, rmtable)"
  let ?r = "RemoveBadStates_loop V nc ([q], c, insert q rmtable)"
  have bad: "?st' = (f, snd ?r)" if "?en \<noteq> ?req"
    using that assms
    by (simp add: SupervisorSynth_step_def Let_def RemoveBadStates_def split: prod.splits)
  have good: "?st' = (fst (fold (SupervisorSynth_visit V q rmtable)
                             (bits_of (SuperProxy_GetStateEvents V q)) (f, AList.update q [] c)),
                       AList.map_entry q
                         (\<lambda>l. l @ map (\<lambda>e. (SuperProxy_Trans V q e, e))
                                      (bits_of (SuperProxy_GetStateEvents V q)))
                         (AList.update q [] c),
                       rmtable)" if "?en = ?req"
  proof -
    obtain f2 c2 where r: "fold (SupervisorSynth_visit V q rmtable)
        (bits_of (SuperProxy_GetStateEvents V q)) (f, AList.update q [] c) = (f2, c2)"
      by (cases "fold (SupervisorSynth_visit V q rmtable)
        (bits_of (SuperProxy_GetStateEvents V q)) (f, AList.update q [] c)") auto
    have "c2 = AList.map_entry q
        (\<lambda>l. l @ map (\<lambda>e. (SuperProxy_Trans V q e, e)) (bits_of (SuperProxy_GetStateEvents V q)))
        (AList.update q [] c)"
      using synth_visit_entries [of V q rmtable "bits_of (SuperProxy_GetStateEvents V q)" f
          "AList.update q [] c"] by (simp add: r)
    then show ?thesis
      using that assms
      by (simp add: SupervisorSynth_step_def Let_def for_each_event_fold r)
  qed
  have A: "q \<in> snd (snd ?st') \<and> rmtable \<subseteq> snd (snd ?st') \<and> map_of (fst (snd ?st')) q = None \<and>
           (\<forall>x e p. x \<in> snd (snd ?st') - rmtable \<and>
                    bit (SuperProxy_GetInvStateEvents V x AND nc) e \<and>
                    p \<in> set (SuperProxy_InvTrans V x e) \<longrightarrow> p \<in> snd (snd ?st')) \<and>
           snd (snd ?st') - rmtable \<subseteq> uncontrollable_predecessors V nc q \<and>
           map_of (fst (snd ?st')) = map_of c |` (- (snd (snd ?st') - rmtable))"
    if b: "?en \<noteq> ?req"
  proof -
    have k: "insert q rmtable \<subseteq> snd (snd ?r)"
      using RemoveBadStates_loop_killed [of "([q], c, insert q rmtable)" V nc] by simp
    have cl: "\<forall>x \<in> snd (snd ?r) - rmtable. set (preds V nc x) \<subseteq> snd (snd ?r)"
      by (rule kill_closed)
    have m: "map_of (fst (snd ?r)) = map_of c |` (- (snd (snd ?r) - insert q rmtable))"
      by (rule kill_map)
    have m': "map_of (fst (snd ?r)) = map_of c |` (- (snd (snd ?r) - rmtable))"
      unfolding m using assms(2) by (auto simp: restrict_map_def fun_eq_iff)
    have so: "snd (snd ?r) - rmtable \<subseteq> uncontrollable_predecessors V nc q"
      by (rule kill_sound)
    have qn: "map_of (fst (snd ?r)) q = None"
      unfolding m' using assms(2) by (simp add: restrict_map_def)
    show ?thesis
      unfolding bad [OF b] using k cl m' so qn
      by (auto simp: set_preds)
  qed
  have B: "snd (snd ?st') = rmtable \<and> map_of (fst (snd ?st')) q \<noteq> None \<and>
           (\<forall>p. p \<noteq> q \<longrightarrow> map_of (fst (snd ?st')) p = map_of c p)"
    if g: "?en = ?req"
    unfolding good [OF g]
    by (simp add: map_of_map_entry update_conv')
  show ?thesis
    unfolding Let_def using A B by blast
qed

text \<open>
  In \<open>PK \<parallel> EK\<close> the state \<open>4 = (1, 1)\<close> is bad: the plant enables \<^verbatim>\<open>b0\<close> there
  and the specification does not. Its predecessor on \<^verbatim>\<open>b0\<close>, the kept initial state 0,
  is removed with it.
\<close>

theorem bad_state_rule_witness:
  "(4::32 word) \<notin> {} \<and> map_of [(0::32 word, [(4::32 word, 2::nat)])] 4 = None
   \<and> n_states_sys0 (SuperProxy PK EK [2, 3]) \<noteq> 0
   \<and> (4 AND GetStateEvents PK (4 mod n_states_sys0 (SuperProxy PK EK [2, 3])))
         AND SuperProxy_GetStateEvents (SuperProxy PK EK [2, 3]) 4
       \<noteq> 4 AND GetStateEvents PK (4 mod n_states_sys0 (SuperProxy PK EK [2, 3]))
   \<and> SupervisorSynth_step (SuperProxy PK EK [2, 3]) PK 4 4 ([4], [(0, [(4, 2)])], {})
       = ([], [], {0, 4})
   \<and> 4 \<in> snd (snd (SupervisorSynth_step (SuperProxy PK EK [2, 3]) PK 4 4
                         ([4], [(0, [(4, 2)])], {})))
   \<and> map_of (fst (snd (SupervisorSynth_step (SuperProxy PK EK [2, 3]) PK 4 4
                         ([4], [(0, [(4, 2)])], {})))) 4 = None"
proof -
  have h1: "(4::32 word) \<notin> {}" by simp
  have h2: "map_of [(0::32 word, [(4::32 word, 2::nat)])] 4 = None" by simp
  have h3: "n_states_sys0 (SuperProxy PK EK [2, 3]) \<noteq> 0"
    by (simp add: SuperProxy_def Let_def PK_def DESystem_def)
  have b: "(4 AND GetStateEvents PK (4 mod n_states_sys0 (SuperProxy PK EK [2, 3])))
         AND SuperProxy_GetStateEvents (SuperProxy PK EK [2, 3]) 4
       \<noteq> 4 AND GetStateEvents PK (4 mod n_states_sys0 (SuperProxy PK EK [2, 3]))"
    by code_simp
  have s: "SupervisorSynth_step (SuperProxy PK EK [2, 3]) PK 4 4 ([4], [(0, [(4, 2)])], {})
       = ([], [], {0, 4})"
    by code_simp
  have "4 \<in> snd (snd (SupervisorSynth_step (SuperProxy PK EK [2, 3]) PK 4 4
                         ([4], [(0, [(4, 2)])], {})))
      \<and> map_of (fst (snd (SupervisorSynth_step (SuperProxy PK EK [2, 3]) PK 4 4
                         ([4], [(0, [(4, 2)])], {})))) 4 = None"
    using bad_state_rule [OF h1 h2 h3, of 4 PK 4 "[]"] b
    unfolding Let_def by blast
  then show ?thesis using h2 h3 b s by simp
qed

section \<open>State count and initial state of the materialised automaton\<close>

text \<open>
  Claim C2. The materialised automaton has as many states as the search kept, and its
  initial state should be \<open>rank[V.init]\<close>, the number of the virtual initial state
  among the sorted kept states. The conversion sets the state count to the number of
  kept states, but moves \<^verbatim>\<open>init_state_\<close> over as it is: \<^verbatim>\<open>SynchronizeStage2\<close> passes
  the marked states through \<^verbatim>\<open>statesmap\<close> and never the initial state. So the initial
  state of the result is always the virtual id \<open>init_E * n_P + init_P\<close>. For the
  plant \<open>P2\<close>, whose initial state is 1, and the specification \<open>E3\<close>: the only kept
  state is the virtual initial state 1, its rank is 0, the result has one state, and
  the initial state of the result is 1, which is not a state of the result.
\<close>

theorem init_state_not_renumbered:
  fixes aP aE :: "('n::len word, 'w::len word) DESystemBase"
  shows
    "states_number (SupervisorSynth aP aE aNonContr) =
       word_of_nat (length (fst (snd (SupervisorSynth_search aP aE aNonContr))))
     \<and> init_state (SupervisorSynth aP aE aNonContr) =
         GetInitialState aE * GetStatesNumber aP + GetInitialState aP
     \<and> fst (snd (SupervisorSynth_search P2 E3 [2, 3])) = [(1, [(1, 0)])]
     \<and> states_number (SupervisorSynth P2 E3 [2, 3]) = 1
     \<and> init_state (SuperProxy P2 E3 [2, 3]) = 1
     \<and> map_of (statesmap_of (sort (map fst (fst (snd (SupervisorSynth_search P2 E3 [2, 3]))))))
          (init_state (SuperProxy P2 E3 [2, 3])) = Some 0
     \<and> init_state (SupervisorSynth P2 E3 [2, 3]) = 1"
proof (intro conjI)
  obtain f c rm where s: "SupervisorSynth_search aP aE aNonContr = (f, c, rm)"
    by (cases "SupervisorSynth_search aP aE aNonContr") auto
  show "states_number (SupervisorSynth aP aE aNonContr) =
       word_of_nat (length (fst (snd (SupervisorSynth_search aP aE aNonContr))))"
    by (simp add: SupervisorSynth_def SuperProxy_DESystem_def Let_def s SynchronizeStage2_members)
  show "init_state (SupervisorSynth aP aE aNonContr) =
         GetInitialState aE * GetStatesNumber aP + GetInitialState aP"
    by (simp add: SupervisorSynth_def SuperProxy_DESystem_def Let_def s SynchronizeStage2_members
        SuperProxy_def)
  show "fst (snd (SupervisorSynth_search P2 E3 [2, 3])) = [(1, [(1, 0)])]"
    by code_simp
  show "states_number (SupervisorSynth P2 E3 [2, 3]) = 1"
    by code_simp
  show "init_state (SuperProxy P2 E3 [2, 3]) = 1"
    by code_simp
  show "map_of (statesmap_of (sort (map fst (fst (snd (SupervisorSynth_search P2 E3 [2, 3]))))))
          (init_state (SuperProxy P2 E3 [2, 3])) = Some 0"
    by code_simp
  show "init_state (SupervisorSynth P2 E3 [2, 3]) = 1"
    by code_simp
qed

section \<open>Dangling edges\<close>



section \<open>Scenario S3\<close>

text \<open>
  Claim C5 says that in scenario S3 the synthesis removes the initial state at once and
  returns the automaton without states. It does not remove it: when the search ends, the
  virtual initial state is not in the removed set.
\<close>

theorem S3_initial_state_killed_counterexample:
  "\<not> init_state (SuperProxy P3 E3 [2, 3]) \<in> snd (snd (SupervisorSynth_search P3 E3 [2, 3]))"
proof -
  have "SupervisorSynth_search P3 E3 [2, 3] = ([], [(0, [(0, 2)])], {})"
    by code_simp
  then show ?thesis by simp
qed

text \<open>
  Claim C5, amended. In scenario S3 the event \<^verbatim>\<open>b0\<close> is in the alphabet of the
  composition (it is an event of the plant only, so the plant moves alone on it); it is
  uncontrollable in the plant and in the composition, and the product enables it at the
  initial state. The search removes nothing and keeps the initial state with its
  self-loop on \<^verbatim>\<open>b0\<close>; the materialised automaton, before trimming, has one state,
  the initial state 0, and the transition \<^verbatim>\<open>0 --b0--> 0\<close>.
\<close>

theorem S3_initial_state_survives:
  "bit (events (SuperProxy P3 E3 [2, 3])) 2
   \<and> bit (only_in_0 (SuperProxy P3 E3 [2, 3])) 2
   \<and> non_contr_bits P3 (SuperProxy P3 E3 [2, 3]) [2, 3] = (4, 4)
   \<and> SuperProxy_GetStateEvents (SuperProxy P3 E3 [2, 3]) (init_state (SuperProxy P3 E3 [2, 3])) = 4
   \<and> SupervisorSynth_search P3 E3 [2, 3] = ([], [(0, [(0, 2)])], {})
   \<and> states_number (SupervisorSynth P3 E3 [2, 3]) = 1
   \<and> init_state (SupervisorSynth P3 E3 [2, 3]) = 0
   \<and> graph (SupervisorSynth P3 E3 [2, 3]) = [(0, 0, 4)]"
  by (intro conjI; code_simp)

section \<open>Events outside the alphabet\<close>

text \<open>
  Claim C6. For a state \<open>q\<close> of a virtual product and an event id \<open>e\<close> that is
  not in the product's alphabet: \<^verbatim>\<open>ContainsTrans\<close> and \<^verbatim>\<open>ContainsInvTrans\<close> are
  false, \<^verbatim>\<open>Trans\<close> is NONE, \<^verbatim>\<open>InvTrans\<close> is the empty list, and neither
  \<^verbatim>\<open>GetStateEvents\<close> nor \<^verbatim>\<open>GetInvStateEvents\<close> reports \<open>e\<close>. The first four
  test the alphabet themselves; the last two have no such test and rely on the
  operands reporting only events of their own alphabets, which every automaton of the
  data model does (and which the product passes on, see
  \<open>SuperProxy_state_events_in_alphabet\<close>).
\<close>

theorem queries_outside_alphabet:
  fixes X Y :: "('n::len word, 'w::len word) DESystemBase"
  assumes "q < states_number (SuperProxy X Y nc)" and "e < LENGTH('n)"
    and "\<not> bit (events (SuperProxy X Y nc)) e"
    and "state_events_in_alphabet X" and "state_events_in_alphabet Y"
  shows "\<not> SuperProxy_ContainsTrans (SuperProxy X Y nc) q e
       \<and> \<not> SuperProxy_ContainsInvTrans (SuperProxy X Y nc) q e
       \<and> SuperProxy_Trans (SuperProxy X Y nc) q e = - 1
       \<and> SuperProxy_InvTrans (SuperProxy X Y nc) q e = []
       \<and> \<not> bit (SuperProxy_GetStateEvents (SuperProxy X Y nc) q) e
       \<and> \<not> bit (SuperProxy_GetInvStateEvents (SuperProxy X Y nc) q) e"
proof -
  have ev: "\<not> bit (GetEvents X) e" "\<not> bit (GetEvents Y) e"
    using assms(3) by (auto simp: SuperProxy_def Let_def bit_simps)
  have se: "\<not> bit (GetStateEvents X a) e" "\<not> bit (GetInvStateEvents X a) e"
           "\<not> bit (GetStateEvents Y b) e" "\<not> bit (GetInvStateEvents Y b) e" for a b
    using ev assms(4,5) by (auto simp: state_events_in_alphabet_def)
  have sys: "sys0 (SuperProxy X Y nc) = X" "sys1 (SuperProxy X Y nc) = Y"
    by (simp_all add: SuperProxy_def Let_def)
  show ?thesis
    using assms(3) se
    by (simp add: SuperProxy_ContainsTrans_def SuperProxy_ContainsInvTrans_def
        SuperProxy_Trans_def SuperProxy_InvTrans_def SuperProxy_GetStateEvents_def
        SuperProxy_GetInvStateEvents_def sys Let_def bit_and_iff bit_or_iff)
qed


text \<open>Event 3 is in neither alphabet of \<open>X0 \<parallel> Y0\<close>.\<close>

theorem queries_outside_alphabet_witness:
  "(1::32 word) < states_number (SuperProxy X0 Y0 []) \<and> (3::nat) < LENGTH(4)
   \<and> \<not> bit (events (SuperProxy X0 Y0 [])) 3
   \<and> \<not> SuperProxy_ContainsTrans (SuperProxy X0 Y0 []) 1 3
   \<and> \<not> SuperProxy_ContainsInvTrans (SuperProxy X0 Y0 []) 1 3
   \<and> SuperProxy_Trans (SuperProxy X0 Y0 []) 1 3 = - 1
   \<and> SuperProxy_InvTrans (SuperProxy X0 Y0 []) 1 3 = []
   \<and> \<not> bit (SuperProxy_GetStateEvents (SuperProxy X0 Y0 []) 1) 3
   \<and> \<not> bit (SuperProxy_GetInvStateEvents (SuperProxy X0 Y0 []) 1) 3"
proof -
  have h1: "(1::32 word) < states_number (SuperProxy X0 Y0 [])"
    by (simp add: SuperProxy_def X0_def Y0_def DESystem_def)
  have h2: "(3::nat) < LENGTH(4)" by simp
  have h3: "\<not> bit (events (SuperProxy X0 Y0 [])) 3"
    by (simp add: SuperProxy_def X0_def Y0_def DESystem_def)
  have h4: "state_events_in_alphabet X0" "state_events_in_alphabet Y0"
    unfolding X0_def Y0_def by (rule DESystem_state_events_in_alphabet)+
  show ?thesis
    using queries_outside_alphabet [OF h1 h2 h3 h4] h1 h3 by simp
qed

section \<open>Inverse round trip\<close>

text \<open>
  Claim C7 says that for every state \<open>q\<close> of a virtual product and every event
  \<open>e\<close> whose transition is defined (\<^verbatim>\<open>Trans(q, e)\<close> is not NONE), the list
  \<^verbatim>\<open>InvTrans(Trans(q, e), e)\<close> contains \<open>q\<close>. It fails when the number of pairs
  \<open>n_X * n_Y\<close> does not fit the index type: the constructor computes the state count
  and \<^verbatim>\<open>Trans\<close> computes \<^verbatim>\<open>q1 * n_states_sys0_ + q0\<close> in \<^verbatim>\<open>StorageIndex\<close>, where the
  product wraps. In \<open>XW \<parallel> YW\<close> the state count \<open>65536 * 65537\<close> wraps to
  \<open>65536\<close>; the state \<open>1 = (1, 0)\<close> moves on the shared event 0 to the pair
  \<open>(65535, 65536)\<close>, whose id \<open>65536 * 65536 + 65535\<close> wraps to \<open>65535\<close>, which
  is decoded as the pair \<open>(65535, 0)\<close>; \<open>YW\<close> has no transition into its state 0,
  so the inverse query there returns the empty list. Both operands keep their inverse
  consistent with their forward relation.
\<close>

theorem inverse_round_trip_wraps_counterexample:
  "\<not> unat (GetStatesNumber XW) * unat (GetStatesNumber YW) < 2 ^ LENGTH(32)
   \<and> states_number (SuperProxy XW YW []) = 65536
   \<and> (1::32 word) < states_number (SuperProxy XW YW [])
   \<and> inverse_of_forward XW \<and> inverse_of_forward YW
   \<and> SuperProxy_ContainsTrans (SuperProxy XW YW []) 1 0
   \<and> SuperProxy_Trans (SuperProxy XW YW []) 1 0 = 65535
   \<and> SuperProxy_Trans (SuperProxy XW YW []) 1 0 \<noteq> - 1
   \<and> SuperProxy_InvTrans (SuperProxy XW YW []) 65535 0 = []
   \<and> 1 \<notin> set (SuperProxy_InvTrans (SuperProxy XW YW [])
                    (SuperProxy_Trans (SuperProxy XW YW []) 1 0) 0)"
proof -
  have n: "\<not> unat (GetStatesNumber XW) * unat (GetStatesNumber YW) < 2 ^ LENGTH(32)"
    by (simp add: XW_def YW_def DESystem_def)
  have s: "states_number (SuperProxy XW YW []) = 65536"
    by code_simp
  have q: "(1::32 word) < states_number (SuperProxy XW YW [])"
    by code_simp
  have h: "inverse_of_forward XW" "inverse_of_forward YW"
    unfolding XW_def YW_def by (rule DESystem_inverse_of_forward; simp)+
  have c: "SuperProxy_ContainsTrans (SuperProxy XW YW []) 1 0"
    by code_simp
  have t: "SuperProxy_Trans (SuperProxy XW YW []) 1 0 = 65535"
    by code_simp
  have d: "SuperProxy_Trans (SuperProxy XW YW []) 1 0 \<noteq> - 1"
    by code_simp
  have i: "SuperProxy_InvTrans (SuperProxy XW YW []) 65535 0 = []"
    by code_simp
  have m: "1 \<notin> set (SuperProxy_InvTrans (SuperProxy XW YW [])
                    (SuperProxy_Trans (SuperProxy XW YW []) 1 0) 0)"
    by (simp only: t i) simp
  show ?thesis using n s q h c t d i m by blast
qed

text \<open>
  Claim C7, amended. For a virtual product whose number of pairs \<open>n_X * n_Y\<close> fits the
  index type, for a state \<open>q\<close> of it and an event \<open>e\<close> whose transition is defined
  (\<^verbatim>\<open>Trans(q, e)\<close> is not NONE), the list \<^verbatim>\<open>InvTrans(Trans(q, e), e)\<close> contains
  \<open>q\<close>. The operands keep their own inverse consistent with their forward relation.
\<close>

theorem inverse_round_trip:
  fixes X Y :: "('n::len word, 'w::len word) DESystemBase"
  assumes nw: "unat (GetStatesNumber X) * unat (GetStatesNumber Y) < 2 ^ LENGTH('w)"
    and q: "q < states_number (SuperProxy X Y nc)"
    and X: "inverse_of_forward X" and Y: "inverse_of_forward Y"
    and d: "SuperProxy_Trans (SuperProxy X Y nc) q e \<noteq> - 1"
  shows "q \<in> set (SuperProxy_InvTrans (SuperProxy X Y nc)
                    (SuperProxy_Trans (SuperProxy X Y nc) q e) e)"
proof -
  let ?V = "SuperProxy X Y nc"
  let ?n0 = "GetStatesNumber X" and ?n1 = "GetStatesNumber Y"
  let ?qx = "q mod ?n0" and ?qy = "q div ?n0"
  have f: "sys0 ?V = X" "sys1 ?V = Y" "n_states_sys0 ?V = ?n0"
    "events ?V = GetEvents X OR GetEvents Y"
    "only_in_0 ?V = GetEvents X XOR (GetEvents X AND GetEvents Y)"
    "only_in_1 ?V = GetEvents Y XOR (GetEvents X AND GetEvents Y)"
    by (simp_all add: SuperProxy_def Let_def)
  have q': "q < ?n0 * ?n1" using q by (simp add: SuperProxy_def Let_def)
  note sp = split_state [OF nw q']
  have ev: "bit (events ?V) e" using d by (auto simp: SuperProxy_Trans_def split: if_splits)
  have Xs: "ContainsTrans X ?qx e \<Longrightarrow> Trans X ?qx e < ?n0 \<and>
      ContainsInvTrans X (Trans X ?qx e) e \<and> ?qx \<in> set (InvTrans X (Trans X ?qx e) e)"
    using X sp(1) by (simp add: inverse_of_forward_def)
  have Ys: "ContainsTrans Y ?qy e \<Longrightarrow> Trans Y ?qy e < ?n1 \<and>
      ContainsInvTrans Y (Trans Y ?qy e) e \<and> ?qy \<in> set (InvTrans Y (Trans Y ?qy e) e)"
    using Y sp(2) by (simp add: inverse_of_forward_def)
  have Xa: "ContainsInvTrans X a e \<Longrightarrow> bit (GetEvents X) e" for a
    using X by (simp add: inverse_of_forward_def)
  have Ya: "ContainsInvTrans Y a e \<Longrightarrow> bit (GetEvents Y) e" for a
    using Y by (simp add: inverse_of_forward_def)
  consider (both) "ContainsTrans X ?qx e" "ContainsTrans Y ?qy e"
    | (left) "ContainsTrans X ?qx e" "\<not> ContainsTrans Y ?qy e" "bit (only_in_0 ?V) e"
    | (right) "\<not> ContainsTrans X ?qx e" "ContainsTrans Y ?qy e" "bit (only_in_1 ?V) e"
    using d by (auto simp: SuperProxy_Trans_def f Let_def split: if_splits)
  then show ?thesis
  proof cases
    case both
    let ?q0 = "Trans X ?qx e" and ?q1 = "Trans Y ?qy e"
    have t: "SuperProxy_Trans ?V q e = ?q1 * ?n0 + ?q0"
      using both ev by (simp add: SuperProxy_Trans_def f Let_def)
    note dp = decode_pair [OF nw Xs [OF both(1), THEN conjunct1] Ys [OF both(2), THEN conjunct1]]
    have "?qy * ?n0 + ?qx \<in> set (SuperProxy_InvTrans ?V (?q1 * ?n0 + ?q0) e)"
      using Xs [OF both(1)] Ys [OF both(2)] ev
      by (auto simp: SuperProxy_InvTrans_def f Let_def dp(1,2))
    then show ?thesis by (simp add: t sp(3))
  next
    case left
    let ?q0 = "Trans X ?qx e"
    have t: "SuperProxy_Trans ?V q e = ?qy * ?n0 + ?q0"
      using left ev by (simp add: SuperProxy_Trans_def f Let_def)
    note dp = decode_pair [OF nw Xs [OF left(1), THEN conjunct1] sp(2)]
    have ny: "\<not> ContainsInvTrans Y ?qy e"
      using left(3) Ya [of ?qy] by (auto simp: f bit_simps)
    have "?qy * ?n0 + ?qx \<in> set (SuperProxy_InvTrans ?V (?qy * ?n0 + ?q0) e)"
      using Xs [OF left(1)] ny ev left(3)
      by (auto simp: SuperProxy_InvTrans_def f Let_def dp(1,2))
    then show ?thesis by (simp add: t sp(3))
  next
    case right
    let ?q1 = "Trans Y ?qy e"
    have t: "SuperProxy_Trans ?V q e = ?q1 * ?n0 + ?qx"
      using right ev by (simp add: SuperProxy_Trans_def f Let_def)
    note dp = decode_pair [OF nw sp(1) Ys [OF right(2), THEN conjunct1]]
    have nx: "\<not> ContainsInvTrans X ?qx e"
      using right(3) Xa [of ?qx] by (auto simp: f bit_simps)
    have "?qy * ?n0 + ?qx \<in> set (SuperProxy_InvTrans ?V (?q1 * ?n0 + ?qx) e)"
      using Ys [OF right(2)] nx ev right(3)
      by (auto simp: SuperProxy_InvTrans_def f Let_def dp(1,2))
    then show ?thesis by (simp add: t sp(3))
  qed
qed


text \<open>
  In \<open>X0 \<parallel> Y0\<close> the private event 0 of \<open>X0\<close> takes state \<open>0 = (0, 0)\<close> to
  \<open>1 = (1, 0)\<close>, and the inverse query at 1 returns 0.
\<close>

theorem inverse_round_trip_witness:
  "unat (GetStatesNumber X0) * unat (GetStatesNumber Y0) < 2 ^ LENGTH(32)
   \<and> (0::32 word) < states_number (SuperProxy X0 Y0 [])
   \<and> SuperProxy_Trans (SuperProxy X0 Y0 []) 0 0 = 1
   \<and> SuperProxy_InvTrans (SuperProxy X0 Y0 []) 1 0 = [0]
   \<and> (0::32 word) \<in> set (SuperProxy_InvTrans (SuperProxy X0 Y0 [])
                             (SuperProxy_Trans (SuperProxy X0 Y0 []) 0 0) 0)"
proof -
  have h1: "unat (GetStatesNumber X0) * unat (GetStatesNumber Y0) < 2 ^ LENGTH(32)"
    by (simp add: X0_def Y0_def DESystem_def)
  have h2: "(0::32 word) < states_number (SuperProxy X0 Y0 [])"
    by (simp add: SuperProxy_def X0_def Y0_def DESystem_def)
  have h3: "inverse_of_forward X0" "inverse_of_forward Y0"
    unfolding X0_def Y0_def by (rule DESystem_inverse_of_forward; simp)+
  have t: "SuperProxy_Trans (SuperProxy X0 Y0 []) 0 0 = 1"
    by (simp add: SuperProxy_Trans_def SuperProxy_def X0_def Y0_def DESystem_def)
  have i: "SuperProxy_InvTrans (SuperProxy X0 Y0 []) 1 0 = [0]"
    by (simp add: SuperProxy_InvTrans_def SuperProxy_def X0_def Y0_def DESystem_def)
  have h4: "SuperProxy_Trans (SuperProxy X0 Y0 []) 0 0 \<noteq> - 1"
    by (simp add: t)
  show ?thesis
    using inverse_round_trip [OF h1 h2 h3 h4] h1 h2 t i by simp
qed

section \<open>The reduction tree is built by rounds\<close>

text \<open>
  Claim C8. For every non-empty list of automata \<^verbatim>\<open>GenBinExprTree\<close> returns, and
  its root is what the rounds of the spec produce from the list of leaves: after some
  number \<open>k\<close> of rounds, each pairing adjacent entries and carrying the last one
  through when the count is odd, exactly the root remains, and no earlier round had
  reduced the list to one node. Every automaton of the input is a leaf of the root
  exactly once. The result is a function of the input list: the same list gives the same
  tree.
\<close>

theorem reduction_tree:
  assumes "aSystems \<noteq> []"
  shows "\<exists>k root nodes_ref.
      GenBinExprTree aSystems = Some (root, nodes_ref) \<and>
      (reduction_round ^^ k) (map DESystem_node aSystems) = [root] \<and>
      (\<forall>j<k. length ((reduction_round ^^ j) (map DESystem_node aSystems)) \<noteq> 1) \<and>
      mset (leaves root) = mset aSystems"
proof -
  let ?l = "map DESystem_node aSystems"
  have "?l \<noteq> []" using assms by simp
  from GenBinExprTree_loop_returns [OF this, of ?l]
  obtain k nodes_ref where k:
    "GenBinExprTree_loop ?l ?l = Some (hd ((reduction_round ^^ k) ?l), nodes_ref)"
    "length ((reduction_round ^^ k) ?l) = 1"
    "\<forall>j<k. length ((reduction_round ^^ j) ?l) \<noteq> 1"
    by blast
  let ?root = "hd ((reduction_round ^^ k) ?l)"
  have r: "(reduction_round ^^ k) ?l = [?root]"
    using k(2) by (cases "(reduction_round ^^ k) ?l") auto
  have "mset (concat (map leaves [?root])) = mset (concat (map leaves ?l))"
    using leaves_reduction_rounds [of k ?l] by (simp only: r [symmetric])
  moreover have "concat (map leaves ?l) = aSystems"
    by (induction aSystems) auto
  ultimately have m: "mset (leaves ?root) = mset aSystems" by simp
  show ?thesis
    using k(1,3) r m unfolding GenBinExprTree_def by blast
qed

text \<open>
  Five systems: the first round carries 5 and pairs (3, 4) and (1, 2); the second carries
  the pair of 1 and 2 and pairs 5 with the pair of 3 and 4; the third pairs the two nodes
  that remain.
\<close>

theorem reduction_tree_witness:
  "[1, 2, 3, 4, 5 :: nat] \<noteq> []
   \<and> GenBinExprTree [1, 2, 3, 4, 5 :: nat] =
       Some (SyncSysProxy_node
               (SyncSysProxy_node
                  (SyncSysProxy_node (DESystem_node 4) (DESystem_node 3)) (DESystem_node 5))
               (SyncSysProxy_node (DESystem_node 2) (DESystem_node 1)),
             [DESystem_node 1, DESystem_node 2, DESystem_node 3, DESystem_node 4, DESystem_node 5,
              SyncSysProxy_node (DESystem_node 4) (DESystem_node 3),
              SyncSysProxy_node (DESystem_node 2) (DESystem_node 1),
              SyncSysProxy_node
                (SyncSysProxy_node (DESystem_node 4) (DESystem_node 3)) (DESystem_node 5),
              SyncSysProxy_node
                (SyncSysProxy_node
                  (SyncSysProxy_node (DESystem_node 4) (DESystem_node 3)) (DESystem_node 5))
                (SyncSysProxy_node (DESystem_node 2) (DESystem_node 1))])
   \<and> (\<exists>k. (reduction_round ^^ k) (map DESystem_node [1, 2, 3, 4, 5 :: nat]) =
         [SyncSysProxy_node
            (SyncSysProxy_node
               (SyncSysProxy_node (DESystem_node 4) (DESystem_node 3)) (DESystem_node 5))
            (SyncSysProxy_node (DESystem_node 2) (DESystem_node 1))])"
proof -
  have h: "[1, 2, 3, 4, 5 :: nat] \<noteq> []" by simp
  have e: "GenBinExprTree [1, 2, 3, 4, 5 :: nat] =
       Some (SyncSysProxy_node
               (SyncSysProxy_node
                  (SyncSysProxy_node (DESystem_node 4) (DESystem_node 3)) (DESystem_node 5))
               (SyncSysProxy_node (DESystem_node 2) (DESystem_node 1)),
             [DESystem_node 1, DESystem_node 2, DESystem_node 3, DESystem_node 4, DESystem_node 5,
              SyncSysProxy_node (DESystem_node 4) (DESystem_node 3),
              SyncSysProxy_node (DESystem_node 2) (DESystem_node 1),
              SyncSysProxy_node
                (SyncSysProxy_node (DESystem_node 4) (DESystem_node 3)) (DESystem_node 5),
              SyncSysProxy_node
                (SyncSysProxy_node
                  (SyncSysProxy_node (DESystem_node 4) (DESystem_node 3)) (DESystem_node 5))
                (SyncSysProxy_node (DESystem_node 2) (DESystem_node 1))])"
    by code_simp
  show ?thesis
    using reduction_tree [OF h] h e by auto
qed

section \<open>Termination of the search\<close>

text \<open>
  Claim C9. The main loop of the synthesis terminates for every input whose plant has a
  state (\<^verbatim>\<open>n_states_sys0_\<close> is not zero, so that \<^verbatim>\<open>q % n_states_sys0_\<close> and the
  decoding of a state in the queries of the proxy are defined): from every state
  \<open>st\<close> of the loop, some number \<open>n\<close> of iterations empties the stack, and the loop
  returns the state reached then; the same holds for the removal loop from every state
  \<open>t\<close>. The reason is the one the claim gives. With \<open>U\<close> the union of the keys of
  the kept map and of the removed set: an iteration of the main loop never shrinks
  \<open>U\<close>; a popped state already in \<open>U\<close> is skipped and only shortens the stack; a
  popped state not in \<open>U\<close> is processed and joins \<open>U\<close>, so it is never processed
  again; hence each iteration either shrinks the complement of \<open>U\<close>, which is finite
  because state ids are machine integers, or leaves \<open>U\<close> as it is and shortens the
  stack. An iteration of the removal loop never shrinks the removed set nor \<open>U\<close>, and
  either adds a removed state or shortens its stack.
\<close>

theorem synthesis_terminates:
  fixes V :: "('n::len word, 'w::len word) SuperProxy" and st t :: "'w word synth_state"
  assumes "n_states_sys0 V \<noteq> 0"
  shows
    "(\<exists>n. fst ((SupervisorSynth_step V aP p_nc nc ^^ n) st) = [] \<and>
          SupervisorSynth_loop V aP p_nc nc st = (SupervisorSynth_step V aP p_nc nc ^^ n) st)
     \<and> (\<exists>m. fst ((RemoveBadStates_step V nc ^^ m) t) = [] \<and>
          RemoveBadStates_loop V nc t = (RemoveBadStates_step V nc ^^ m) t)
     \<and> (fst st \<noteq> [] \<longrightarrow>
          (let st' = SupervisorSynth_step V aP p_nc nc st;
               U = fst ` set (fst (snd st)) \<union> snd (snd st);
               U' = fst ` set (fst (snd st')) \<union> snd (snd st')
           in U \<subseteq> U' \<and>
              (hd (fst st) \<in> U \<longrightarrow> st' = (tl (fst st), snd st)) \<and>
              (hd (fst st) \<notin> U \<longrightarrow> hd (fst st) \<in> U') \<and>
              (card (- U') < card (- U) \<or> (U' = U \<and> length (fst st') < length (fst st)))))
     \<and> (fst t \<noteq> [] \<longrightarrow>
          (let t' = RemoveBadStates_step V nc t
           in snd (snd t) \<subseteq> snd (snd t') \<and>
              fst ` set (fst (snd t)) \<union> snd (snd t) \<subseteq> fst ` set (fst (snd t')) \<union> snd (snd t') \<and>
              (card (- snd (snd t')) < card (- snd (snd t)) \<or>
               (snd (snd t') = snd (snd t) \<and> length (fst t') < length (fst t)))))"
proof (intro conjI impI)
  show "\<exists>n. fst ((SupervisorSynth_step V aP p_nc nc ^^ n) st) = [] \<and>
          SupervisorSynth_loop V aP p_nc nc st = (SupervisorSynth_step V aP p_nc nc ^^ n) st"
    by (rule SupervisorSynth_loop_iterate)
  show "\<exists>m. fst ((RemoveBadStates_step V nc ^^ m) t) = [] \<and>
          RemoveBadStates_loop V nc t = (RemoveBadStates_step V nc ^^ m) t"
    by (rule RemoveBadStates_loop_iterate)
next
  assume ne: "fst st \<noteq> []"
  let ?st' = "SupervisorSynth_step V aP p_nc nc st"
  let ?U = "fst ` set (fst (snd st)) \<union> snd (snd st)"
  let ?U' = "fst ` set (fst (snd ?st')) \<union> snd (snd ?st')"
  note c = SupervisorSynth_step_cases [OF ne, of V aP p_nc nc]
  have sub: "?U \<subseteq> ?U'" using c by auto
  have skip: "hd (fst st) \<in> ?U \<longrightarrow> ?st' = (tl (fst st), snd st)" using c by auto
  have join: "hd (fst st) \<notin> ?U \<longrightarrow> hd (fst st) \<in> ?U'" using c by auto
  have dec: "card (- ?U') < card (- ?U) \<or> (?U' = ?U \<and> length (fst ?st') < length (fst st))"
  proof (cases "hd (fst st) \<in> ?U")
    case True
    then have "?st' = (tl (fst st), snd st)" using skip by simp
    then show ?thesis using ne by simp
  next
    case False
    then have "?U \<subset> ?U'" using sub join by auto
    then have "- ?U' \<subset> - ?U" by auto
    then have "card (- ?U') < card (- ?U)" by (intro psubset_card_mono) simp_all
    then show ?thesis by simp
  qed
  show "let st' = SupervisorSynth_step V aP p_nc nc st;
            U = fst ` set (fst (snd st)) \<union> snd (snd st);
            U' = fst ` set (fst (snd st')) \<union> snd (snd st')
        in U \<subseteq> U' \<and>
           (hd (fst st) \<in> U \<longrightarrow> st' = (tl (fst st), snd st)) \<and>
           (hd (fst st) \<notin> U \<longrightarrow> hd (fst st) \<in> U') \<and>
           (card (- U') < card (- U) \<or> (U' = U \<and> length (fst st') < length (fst st)))"
    unfolding Let_def using sub skip join dec by blast
next
  assume ne: "fst t \<noteq> []"
  let ?t' = "RemoveBadStates_step V nc t"
  have k: "snd (snd t) \<subseteq> snd (snd ?t')" by (simp add: RemoveBadStates_step_killed)
  have u: "fst ` set (fst (snd t)) \<union> snd (snd t) \<subseteq> fst ` set (fst (snd ?t')) \<union> snd (snd ?t')"
    by (simp only: RemoveBadStates_step_union) blast
  have "(?t', t) \<in> kill_order" by (rule RemoveBadStates_step_decreases [OF ne])
  then have d: "card (- snd (snd ?t')) < card (- snd (snd t)) \<or>
      (card (- snd (snd ?t')) = card (- snd (snd t)) \<and> length (fst ?t') < length (fst t))"
    by (auto simp: kill_order_def split: prod.splits)
  have d': "card (- snd (snd ?t')) < card (- snd (snd t)) \<or>
      (snd (snd ?t') = snd (snd t) \<and> length (fst ?t') < length (fst t))"
  proof (cases "snd (snd ?t') = snd (snd t)")
    case True
    then show ?thesis using d by auto
  next
    case False
    then have "snd (snd t) \<subset> snd (snd ?t')" using k by auto
    then have "- snd (snd ?t') \<subset> - snd (snd t)" by auto
    then have "card (- snd (snd ?t')) < card (- snd (snd t))"
      by (intro psubset_card_mono) simp_all
    then show ?thesis by simp
  qed
  show "let t' = RemoveBadStates_step V nc t
        in snd (snd t) \<subseteq> snd (snd t') \<and>
           fst ` set (fst (snd t)) \<union> snd (snd t) \<subseteq> fst ` set (fst (snd t')) \<union> snd (snd t') \<and>
           (card (- snd (snd t')) < card (- snd (snd t)) \<or>
            (snd (snd t') = snd (snd t) \<and> length (fst t') < length (fst t)))"
    unfolding Let_def using k u d' by blast
qed

text \<open>
  The run of scenario S2: from the initial state of \<open>PS \<parallel> ES\<close> the loop ends with
  six kept states and the removed states 5 and 7.
\<close>

theorem synthesis_terminates_witness:
  "n_states_sys0 (SuperProxy PS ES [2, 3]) \<noteq> 0
   \<and> fst ([0::32 word], [] :: 32 word TransMap, {} :: 32 word set) \<noteq> []
   \<and> fst ([5::32 word], [] :: 32 word TransMap, {5::32 word}) \<noteq> []
   \<and> (\<exists>n. fst ((SupervisorSynth_step (SuperProxy PS ES [2, 3]) PS 12 12 ^^ n) ([0], [], {})) = []
          \<and> SupervisorSynth_loop (SuperProxy PS ES [2, 3]) PS 12 12 ([0], [], {}) =
            (SupervisorSynth_step (SuperProxy PS ES [2, 3]) PS 12 12 ^^ n) ([0], [], {}))
   \<and> SupervisorSynth_loop (SuperProxy PS ES [2, 3]) PS 12 12 ([0], [], {}) =
       ([], [(0, [(1, 0)]), (1, [(4, 2)]), (4, [(5, 0), (2, 1)]), (2, [(3, 0), (0, 3)]),
             (3, [(6, 2), (1, 3)]), (6, [(7, 0), (4, 3)])], {5, 7})
   \<and> (0::32 word) \<in> fst ` set (fst (snd (SupervisorSynth_step (SuperProxy PS ES [2, 3]) PS 12 12
                                            ([0], [], {}))))
                     \<union> snd (snd (SupervisorSynth_step (SuperProxy PS ES [2, 3]) PS 12 12
                                   ([0], [], {})))
   \<and> {5::32 word} \<subseteq> snd (snd (RemoveBadStates_step (SuperProxy PS ES [2, 3]) 12 ([5], [], {5})))
   \<and> RemoveBadStates_loop (SuperProxy PS ES [2, 3]) 12 ([5], [], {5}) = ([], [], {5, 7})"
proof -
  let ?V = "SuperProxy PS ES [2, 3]"
  let ?st = "([0::32 word], [] :: 32 word TransMap, {} :: 32 word set)"
  let ?t = "([5::32 word], [] :: 32 word TransMap, {5::32 word})"
  have h1: "fst ?st \<noteq> []" by simp
  have h2: "fst ?t \<noteq> []" by simp
  have h0: "n_states_sys0 ?V \<noteq> 0"
    by (simp add: SuperProxy_def Let_def PS_def DESystem_def)
  note T = synthesis_terminates [OF h0, of PS 12 12 ?st ?t, unfolded Let_def]
  have A: "\<exists>n. fst ((SupervisorSynth_step ?V PS 12 12 ^^ n) ?st) = []
          \<and> SupervisorSynth_loop ?V PS 12 12 ?st = (SupervisorSynth_step ?V PS 12 12 ^^ n) ?st"
    using T by blast
  have B: "(0::32 word) \<in> fst ` set (fst (snd (SupervisorSynth_step ?V PS 12 12 ?st)))
                     \<union> snd (snd (SupervisorSynth_step ?V PS 12 12 ?st))"
    using T h1 by simp
  have C: "{5::32 word} \<subseteq> snd (snd (RemoveBadStates_step ?V 12 ?t))"
    using T h2 by simp
  have D: "SupervisorSynth_loop ?V PS 12 12 ?st =
       ([], [(0, [(1, 0)]), (1, [(4, 2)]), (4, [(5, 0), (2, 1)]), (2, [(3, 0), (0, 3)]),
             (3, [(6, 2), (1, 3)]), (6, [(7, 0), (4, 3)])], {5, 7})"
    by code_simp
  have E: "RemoveBadStates_loop ?V 12 ?t = ([], [], {5, 7})"
    by code_simp
  show ?thesis using h0 h1 h2 A B C D E by blast
qed

section \<open>The constructor from lists\<close>

text \<open>
  Claim C10. The constructor of the proxy from a list of plants, a list of
  specifications and the uncontrollable events has an empty body: the object is the
  default-initialised one whatever the arguments are, so two calls with different
  arguments give the same object, and for every such object there are systems whose
  composition it is not. The constructor from two operands is the one that sets the
  state count, the initial state, the alphabet with its two private parts, and the
  marked states.
\<close>

theorem list_constructor_ignores_arguments:
  fixes dflt :: "('n::len word, 'w::len word) SuperProxy"
  shows
    "SuperProxy_DESVector dflt aPlants aSpecs aNonContr = dflt
     \<and> SuperProxy_DESVector dflt aPlants aSpecs aNonContr =
         SuperProxy_DESVector dflt aPlants' aSpecs' aNonContr'
     \<and> (\<exists>aSys0 aSys1. SuperProxy_DESVector dflt [aSys0] [aSys1] aNonContr \<noteq>
           SuperProxy aSys0 aSys1 aNonContr)
     \<and> states_number (SuperProxy aSys0 aSys1 aNonContr) =
         GetStatesNumber aSys0 * GetStatesNumber aSys1
     \<and> init_state (SuperProxy aSys0 aSys1 aNonContr) =
         GetInitialState aSys1 * GetStatesNumber aSys0 + GetInitialState aSys0
     \<and> events (SuperProxy aSys0 aSys1 aNonContr) = GetEvents aSys0 OR GetEvents aSys1
     \<and> only_in_0 (SuperProxy aSys0 aSys1 aNonContr) = GetEvents aSys0 AND NOT (GetEvents aSys1)
     \<and> only_in_1 (SuperProxy aSys0 aSys1 aNonContr) = GetEvents aSys1 AND NOT (GetEvents aSys0)
     \<and> marked_states (SuperProxy aSys0 aSys1 aNonContr) =
         {q1 * GetStatesNumber aSys0 + q0 | q0 q1.
            q0 \<in> GetMarkedStates aSys0 \<and> q1 \<in> GetMarkedStates aSys1}"
proof (intro conjI)
  show "\<exists>aSys0 aSys1. SuperProxy_DESVector dflt [aSys0] [aSys1] aNonContr \<noteq>
           SuperProxy aSys0 aSys1 aNonContr"
  proof (intro exI notI)
    let ?p = "DESystem (states_number dflt + 1) 0 {} [] :: ('n word, 'w word) DESystemBase"
    let ?s = "DESystem 1 0 {} [] :: ('n word, 'w word) DESystemBase"
    assume "SuperProxy_DESVector dflt [?p] [?s] aNonContr = SuperProxy ?p ?s aNonContr"
    then have "states_number dflt = states_number (SuperProxy ?p ?s aNonContr)"
      by (simp add: SuperProxy_DESVector_def)
    then show False by (simp add: SuperProxy_def DESystem_def)
  qed
  show "only_in_0 (SuperProxy aSys0 aSys1 aNonContr) = GetEvents aSys0 AND NOT (GetEvents aSys1)"
    by (rule bit_eqI) (auto simp: SuperProxy_def Let_def bit_simps)
  show "only_in_1 (SuperProxy aSys0 aSys1 aNonContr) = GetEvents aSys1 AND NOT (GetEvents aSys0)"
    by (rule bit_eqI) (auto simp: SuperProxy_def Let_def bit_simps)
  show "marked_states (SuperProxy aSys0 aSys1 aNonContr) =
         {q1 * GetStatesNumber aSys0 + q0 | q0 q1.
            q0 \<in> GetMarkedStates aSys0 \<and> q1 \<in> GetMarkedStates aSys1}"
    by (auto simp: SuperProxy_def Let_def)
qed (simp_all add: SuperProxy_DESVector_def SuperProxy_def Let_def)

end
